theory Spec2Isabelle
  imports Main "HOL-Library.Word"
begin

unbundle bit_operations_syntax

section \<open>bmw\_gws.py: diagnostic trouble codes and protocol discovery\<close>

text \<open>
  A shallow embedding of \<^verbatim>\<open>src/bmw_gear_selector/bmw_gws.py\<close>. Bytes on the wire are
  8-bit words. Python exceptions are values of the type \<open>error\<close>; a function that can
  raise returns \<open>error + 'a\<close>. The CAN bus and the ISO-TP session are external: the
  record \<open>bus\<close> carries them as two functions over a hidden state, and a log of what the
  program did with them.
\<close>

subsection \<open>Bytes, errors, formatting\<close>

type_synonym byte = "8 word"

text \<open>
  The three \<^verbatim>\<open>RuntimeError\<close>s the module raises, by message:
  \<^verbatim>\<open>f"Unexpected response tag {dtcdata[0]:#x}"\<close>,
  \<^verbatim>\<open>f"Unexpected response length {len(dtcdata)}"\<close> and
  \<^verbatim>\<open>"No valid checksum found..."\<close>.
\<close>

datatype runtime_error =
    Unexpected_response_tag byte
  | Unexpected_response_length nat
  | No_valid_checksum_found

text \<open>
  \<open>IndexError\<close>, \<open>TypeError\<close>, \<open>AttributeError\<close> and \<open>ValueError\<close> are raised by the
  Python runtime (indexing past the end, subscripting \<^verbatim>\<open>None\<close>, \<^verbatim>\<open>None.get\<close>, the
  format code \<^verbatim>\<open>#x\<close> on a \<^verbatim>\<open>str\<close>); \<open>CanError\<close> is what \<^verbatim>\<open>bus.send\<close> raises when the
  interface cannot transmit.
\<close>

datatype error =
    RuntimeError runtime_error
  | IndexError
  | TypeError
  | AttributeError
  | ValueError
  | CanError

definition hex_digit :: "nat \<Rightarrow> char" where
  "hex_digit n = ''0123456789abcdef'' ! n"

text \<open>\<^verbatim>\<open>bytes.hex()\<close>: two lower-case digits for each byte.\<close>

definition hex_byte :: "byte \<Rightarrow> string" where
  "hex_byte b = [hex_digit (unat b div 16), hex_digit (unat b mod 16)]"

definition bytes_hex :: "byte list \<Rightarrow> string" where
  "bytes_hex bs = concat (map hex_byte bs)"

text \<open>The format \<^verbatim>\<open>{n:#x}\<close> of a non-negative integer, and \<^verbatim>\<open>{n}\<close>.\<close>

function hex_digits :: "nat \<Rightarrow> string" where
  "hex_digits n =
     (if n < 16 then [hex_digit n] else hex_digits (n div 16) @ [hex_digit (n mod 16)])"
  by pat_completeness auto
termination
  by (relation "measure id") auto

declare hex_digits.simps [simp del]

definition format_hash_x :: "nat \<Rightarrow> string" where
  "format_hash_x n = ''0x'' @ hex_digits n"

function dec_digits :: "nat \<Rightarrow> string" where
  "dec_digits n =
     (if n < 10 then [''0123456789'' ! n] else dec_digits (n div 10) @ [''0123456789'' ! (n mod 10)])"
  by pat_completeness auto
termination
  by (relation "measure id") auto

declare dec_digits.simps [simp del]

subsection \<open>The DTC table\<close>

text \<open>
  A value stored in or read from the table: a status byte, or the string that
  \<^verbatim>\<open>dtcs.get(key, "missing")\<close> gives for an absent key.
\<close>

datatype pyval = Status byte | Str string

text \<open>
  A Python \<^verbatim>\<open>dict\<close> from hex strings to status bytes, in insertion order:
  \<^verbatim>\<open>d[k] = v\<close> overwrites the value of a key that is present, in place, and appends a
  new key at the end.
\<close>

type_synonym dtc_table = "(string \<times> byte) list"

fun dict_set :: "dtc_table \<Rightarrow> string \<Rightarrow> byte \<Rightarrow> dtc_table" where
  "dict_set [] k v = [(k, v)]"
| "dict_set ((k', v') # kvs) k v =
     (if k' = k then (k, v) # kvs else (k', v') # dict_set kvs k v)"

definition dict_get :: "dtc_table \<Rightarrow> string \<Rightarrow> pyval \<Rightarrow> pyval" where
  "dict_get d k dflt = (case map_of d k of Some v \<Rightarrow> Status v | None \<Rightarrow> dflt)"

subsection \<open>decode\_dtcdata\<close>

text \<open>
  The loop \<^verbatim>\<open>for i in range(num_dtcs)\<close>. The slice \<^verbatim>\<open>dtcdata[offs : offs + 3]\<close> never
  raises; the index \<^verbatim>\<open>dtcdata[offs + 3]\<close> raises \<open>IndexError\<close> past the end.
\<close>

fun decode_records :: "byte list \<Rightarrow> nat list \<Rightarrow> dtc_table \<Rightarrow> error + dtc_table" where
  "decode_records dtcdata [] dtcs = Inr dtcs"
| "decode_records dtcdata (i # is) dtcs =
     (let offs = 3 + i * 4;
          dtc = take 3 (drop offs dtcdata)
      in if offs + 3 < length dtcdata
         then decode_records dtcdata is (dict_set dtcs (bytes_hex dtc) (dtcdata ! (offs + 3)))
         else Inl IndexError)"

text \<open>
  The argument is whatever \<^verbatim>\<open>req_isotp\<close> returned: a byte string, or \<^verbatim>\<open>None\<close>, on which
  \<^verbatim>\<open>dtcdata[0]\<close> raises \<open>TypeError\<close>. On an empty byte string \<^verbatim>\<open>dtcdata[0]\<close> raises
  \<open>IndexError\<close>. \<^verbatim>\<open>%\<close> and \<^verbatim>\<open>//\<close> are Python's, on integers, rounding down.
\<close>

definition decode_dtcdata :: "byte list option \<Rightarrow> error + dtc_table" where
  "decode_dtcdata arg =
     (case arg of
        None \<Rightarrow> Inl TypeError
      | Some dtcdata \<Rightarrow>
          (case dtcdata of
             [] \<Rightarrow> Inl IndexError
           | tag # _ \<Rightarrow>
               if tag \<noteq> 0x59 then Inl (RuntimeError (Unexpected_response_tag tag))
               else if (int (length dtcdata) - 3) mod 4 \<noteq> 0
               then Inl (RuntimeError (Unexpected_response_length (length dtcdata)))
               else let num_dtcs = nat ((int (length dtcdata) - 3) div 4)
                    in decode_records dtcdata [0..<num_dtcs] []))"

subsection \<open>The bus and the diagnostic session\<close>

text \<open>\<^verbatim>\<open>can.Message(arbitration_id=..., data=..., is_extended_id=...)\<close>.\<close>

record can_message =
  arbitration_id :: nat
  data :: "byte list"
  is_extended_id :: bool

text \<open>
  What the program does to the outside world, in order: \<^verbatim>\<open>bus.send\<close>, \<^verbatim>\<open>time.sleep\<close> (in
  milliseconds), a request through \<^verbatim>\<open>req_isotp\<close>, and \<^verbatim>\<open>print\<close>.
\<close>

datatype event =
    Send can_message
  | Sleep nat
  | Request "byte list"
  | Print string

text \<open>
  The \<^verbatim>\<open>bus\<close> object with everything behind it (interface, ECU, ISO-TP stack and its pump
  thread), as a state machine over a hidden state \<open>'s\<close>:
  \<^item> \<open>bus_send m s\<close> is \<^verbatim>\<open>bus.send(m)\<close>: it returns normally (\<open>None\<close>; the source discards the
    return value) or raises (\<open>Some e\<close>), and moves the state;
  \<^item> \<open>isotp_request req s\<close> is the whole of \<^verbatim>\<open>ThreadedBmwIsoTp(bus, 0x5E, 0xF1).request(req,
    timeout=0.5)\<close>: the response bytes, or \<^verbatim>\<open>None\<close> after the timeout.
\<close>

record 's bus =
  bus_send :: "can_message \<Rightarrow> 's \<Rightarrow> error option \<times> 's"
  isotp_request :: "byte list \<Rightarrow> 's \<Rightarrow> byte list option \<times> 's"
  bus_state :: 's
  bus_log :: "event list"

definition do_send :: "can_message \<Rightarrow> 's bus \<Rightarrow> (error + unit) \<times> 's bus" where
  "do_send m bus =
     (case bus_send bus m (bus_state bus) of
        (r, s') \<Rightarrow>
          ((case r of None \<Rightarrow> Inr () | Some e \<Rightarrow> Inl e),
           bus\<lparr>bus_state := s', bus_log := bus_log bus @ [Send m]\<rparr>))"

definition do_sleep :: "nat \<Rightarrow> 's bus \<Rightarrow> 's bus" where
  "do_sleep ms bus = bus\<lparr>bus_log := bus_log bus @ [Sleep ms]\<rparr>"

definition do_print :: "string \<Rightarrow> 's bus \<Rightarrow> 's bus" where
  "do_print line bus = bus\<lparr>bus_log := bus_log bus @ [Print line]\<rparr>"

definition req_isotp :: "'s bus \<Rightarrow> byte list \<Rightarrow> byte list option \<times> 's bus" where
  "req_isotp bus req =
     (case isotp_request bus req (bus_state bus) of
        (r, s') \<Rightarrow> (r, bus\<lparr>bus_state := s', bus_log := bus_log bus @ [Request req]\<rparr>))"

subsection \<open>get\_dtcs and get\_supported\_dtcs\<close>

text \<open>
  \<^verbatim>\<open>for tries in range(3)\<close>, counted down. Falling out of the loop returns \<^verbatim>\<open>None\<close>.
\<close>

fun get_dtcs_tries :: "nat \<Rightarrow> 's bus \<Rightarrow> byte \<Rightarrow> (error + dtc_table option) \<times> 's bus" where
  "get_dtcs_tries 0 bus status_mask = (Inr None, bus)"
| "get_dtcs_tries (Suc n) bus status_mask =
     (case req_isotp bus [0x19, 0x02, status_mask] of
        (Some r, bus') \<Rightarrow>
          ((case decode_dtcdata (Some r) of Inl e \<Rightarrow> Inl e | Inr dtcs \<Rightarrow> Inr (Some dtcs)), bus')
      | (None, bus') \<Rightarrow> get_dtcs_tries n bus' status_mask)"

definition get_dtcs :: "'s bus \<Rightarrow> byte \<Rightarrow> (error + dtc_table option) \<times> 's bus" where
  "get_dtcs bus status_mask = get_dtcs_tries 3 bus status_mask"

definition get_supported_dtcs :: "'s bus \<Rightarrow> (error + dtc_table) \<times> 's bus" where
  "get_supported_dtcs bus =
     (case req_isotp bus [0x19, 0x0A] of (r, bus') \<Rightarrow> (decode_dtcdata r, bus'))"

subsection \<open>verify\_checksum and find\_checksum\<close>

text \<open>
  \<^verbatim>\<open>for _ in range(16): bus.send(message); time.sleep(0.01)\<close>, with the number of rounds
  left as first argument. An exception of \<^verbatim>\<open>bus.send\<close> leaves the loop.
\<close>

fun burst :: "nat \<Rightarrow> can_message \<Rightarrow> 's bus \<Rightarrow> (error + unit) \<times> 's bus" where
  "burst 0 message bus = (Inr (), bus)"
| "burst (Suc n) message bus =
     (case do_send message bus of
        (Inl e, bus') \<Rightarrow> (Inl e, bus')
      | (Inr _, bus') \<Rightarrow> burst n message (do_sleep 10 bus'))"

text \<open>
  \<^verbatim>\<open>dtcs.get\<close> on the \<^verbatim>\<open>None\<close> that \<^verbatim>\<open>get_dtcs\<close> returns after three timeouts raises
  \<open>AttributeError\<close>. The status mask is the default \<^verbatim>\<open>0x0C\<close>.
\<close>

definition verify_checksum :: "'s bus \<Rightarrow> byte list \<Rightarrow> (error + bool) \<times> 's bus" where
  "verify_checksum bus payload =
     (let message = \<lparr>arbitration_id = 0x3FD, data = payload, is_extended_id = False\<rparr>
      in case burst 16 message bus of
           (Inl e, bus1) \<Rightarrow> (Inl e, bus1)
         | (Inr _, bus1) \<Rightarrow>
             (case get_dtcs (do_sleep 100 bus1) 0x0C of
                (Inl e, bus2) \<Rightarrow> (Inl e, bus2)
              | (Inr None, bus2) \<Rightarrow> (Inl AttributeError, bus2)
              | (Inr (Some dtcs), bus2) \<Rightarrow>
                  (let csum_dtc = dict_get dtcs ''e09404'' (Str ''missing'')
                   in (Inr (csum_dtc = Status 0x2e), bus2))))"

text \<open>\<^verbatim>\<open>for chksum in range(0x100)\<close>, over the candidates still to try.\<close>

fun find_checksum_from :: "'s bus \<Rightarrow> byte list \<Rightarrow> nat list \<Rightarrow> (error + nat) \<times> 's bus" where
  "find_checksum_from bus message [] = (Inl (RuntimeError No_valid_checksum_found), bus)"
| "find_checksum_from bus message (chksum # rest) =
     (case verify_checksum bus (of_nat chksum # message) of
        (Inl e, bus') \<Rightarrow> (Inl e, bus')
      | (Inr True, bus') \<Rightarrow> (Inr chksum, bus')
      | (Inr False, bus') \<Rightarrow> find_checksum_from bus' message rest)"

definition find_checksum :: "'s bus \<Rightarrow> byte list \<Rightarrow> (error + nat) \<times> 's bus" where
  "find_checksum bus message =
     (let bus0 = (if length message \<noteq> 4
                  then do_print ''WARNING: Expected 4 byte message'' bus else bus)
      in find_checksum_from bus0 message [0..<0x100])"

subsection \<open>The checksum of message 0x3FD\<close>

text \<open>
  \<^verbatim>\<open>crccheck.crc.Crc8Base\<close> is a third-party class. Its \<^verbatim>\<open>calc\<close> is the bitwise CRC-8, most
  significant bit first, without reflection: the register starts at \<^verbatim>\<open>_initvalue\<close>, each
  byte is xor-ed in and shifted out in eight steps, the register is cut to 8 bits, and
  \<^verbatim>\<open>_xor_output\<close> is xor-ed to the result. The class \<^verbatim>\<open>BMW3FDCRC\<close> sets \<^verbatim>\<open>_poly = 0x1D\<close>,
  \<^verbatim>\<open>_initvalue = 0x0\<close> and \<^verbatim>\<open>_xor_output = 0x70\<close>.
\<close>

definition crc8_bit :: "nat \<Rightarrow> nat \<Rightarrow> nat" where
  "crc8_bit poly crc = (if crc AND 0x80 \<noteq> 0 then push_bit 1 crc XOR poly else push_bit 1 crc)"

definition crc8_byte :: "nat \<Rightarrow> nat \<Rightarrow> byte \<Rightarrow> nat" where
  "crc8_byte poly crc b = ((crc8_bit poly ^^ 8) (crc XOR unat b)) AND 0xFF"

definition Crc8Base_calc :: "nat \<Rightarrow> nat \<Rightarrow> nat \<Rightarrow> byte list \<Rightarrow> nat" where
  "Crc8Base_calc poly initvalue xor_output message =
     foldl (crc8_byte poly) initvalue message XOR xor_output"

definition bmw_3fd_crc :: "byte list \<Rightarrow> nat" where
  "bmw_3fd_crc message = Crc8Base_calc 0x1D 0x0 0x70 message AND 0xFF"

subsection \<open>find\_counter\_fields\<close>

text \<open>
  The three lines that build one payload: four bytes \<^verbatim>\<open>0xFF\<close>, the byte at index
  \<^verbatim>\<open>byte\<close> (always below 4) replaced by \<^verbatim>\<open>counter << shift\<close>, and the checksum in front.
\<close>

definition counter_payload :: "nat \<Rightarrow> nat \<Rightarrow> nat \<Rightarrow> byte list" where
  "counter_payload byte shift counter =
     (let payload = [0xFF, 0xFF, 0xFF, 0xFF][byte := of_nat (push_bit shift counter)]
      in of_nat (bmw_3fd_crc payload) # payload)"

text \<open>\<^verbatim>\<open>for counter in list(range(mask + 1)) * 4\<close>, over the counters still to send.\<close>

fun cycle_counters :: "nat \<Rightarrow> nat \<Rightarrow> nat list \<Rightarrow> 's bus \<Rightarrow> (error + unit) \<times> 's bus" where
  "cycle_counters byte shift [] bus = (Inr (), bus)"
| "cycle_counters byte shift (counter # rest) bus =
     (let message = \<lparr>arbitration_id = 0x3FD, data = counter_payload byte shift counter,
                     is_extended_id = False\<rparr>
      in case do_send message bus of
           (Inl e, bus') \<Rightarrow> (Inl e, bus')
         | (Inr _, bus') \<Rightarrow> cycle_counters byte shift rest (do_sleep 10 bus'))"

text \<open>
  The body of \<^verbatim>\<open>for mask, shift in [(0xFF, 0), (0x0F, 4), (0x0F, 0)]\<close> for one field
  (\<open>msk\<close> is the source's \<^verbatim>\<open>mask\<close>, a name the word library uses): the cycling, the settle
  time, the read of the table and the two \<^verbatim>\<open>print\<close>s. The second \<^verbatim>\<open>print\<close> formats
  \<^verbatim>\<open>csum_dtc\<close> with \<^verbatim>\<open>#x\<close>, which raises \<open>ValueError\<close> on the string \<^verbatim>\<open>"missing"\<close>.
\<close>

definition probe_counter_field :: "nat \<Rightarrow> nat \<Rightarrow> nat \<Rightarrow> 's bus \<Rightarrow> (error + unit) \<times> 's bus" where
  "probe_counter_field byte msk shift bus =
     (case cycle_counters byte shift (concat (replicate 4 [0..<msk + 1])) bus of
        (Inl e, bus1) \<Rightarrow> (Inl e, bus1)
      | (Inr _, bus1) \<Rightarrow>
          (case get_dtcs (do_sleep 100 bus1) 0x0C of
             (Inl e, bus2) \<Rightarrow> (Inl e, bus2)
           | (Inr None, bus2) \<Rightarrow> (Inl AttributeError, bus2)
           | (Inr (Some dtcs), bus2) \<Rightarrow>
               (let csum_dtc = dict_get dtcs ''e09402'' (Str ''missing'')
                in if csum_dtc \<noteq> Status 0x2f
                   then (let bus3 = do_print (''Counter byte '' @ dec_digits byte @ '' mask ''
                                       @ format_hash_x (push_bit shift msk)) bus2
                         in case csum_dtc of
                              Str _ \<Rightarrow> (Inl ValueError, bus3)
                            | Status s \<Rightarrow>
                                (Inr (), do_print (''   E09402 -> '' @ format_hash_x (unat s)) bus3))
                   else (Inr (), bus2))))"

text \<open>The loop over the fields still to try; an exception leaves it.\<close>

fun field_loop :: "nat \<Rightarrow> (nat \<times> nat) list \<Rightarrow> 's bus \<Rightarrow> (error + unit) \<times> 's bus" where
  "field_loop byte [] bus = (Inr (), bus)"
| "field_loop byte ((msk, shift) # rest) bus =
     (case probe_counter_field byte msk shift bus of
        (Inl e, bus') \<Rightarrow> (Inl e, bus')
      | (Inr _, bus') \<Rightarrow> field_loop byte rest bus')"

text \<open>\<^verbatim>\<open>for byte in range(4)\<close>, over the positions still to try.\<close>

fun byte_loop :: "nat list \<Rightarrow> 's bus \<Rightarrow> (error + unit) \<times> 's bus" where
  "byte_loop [] bus = (Inr (), bus)"
| "byte_loop (byte # rest) bus =
     (case field_loop byte [(0xFF, 0), (0x0F, 4), (0x0F, 0)] bus of
        (Inl e, bus') \<Rightarrow> (Inl e, bus')
      | (Inr _, bus') \<Rightarrow> byte_loop rest bus')"

definition find_counter_fields :: "'s bus \<Rightarrow> (error + unit) \<times> 's bus" where
  "find_counter_fields bus = byte_loop [0..<4] bus"

section \<open>Notions used in the statements\<close>

text \<open>
  The specification's \<open>MalformedResponse\<close>: the two \<^verbatim>\<open>RuntimeError\<close>s of the decoder.
\<close>

definition malformed_response :: "error \<Rightarrow> bool" where
  "malformed_response e =
     (case e of
        RuntimeError (Unexpected_response_tag _) \<Rightarrow> True
      | RuntimeError (Unexpected_response_length _) \<Rightarrow> True
      | _ \<Rightarrow> False)"

text \<open>Record \<open>i\<close> of a response: its three identifier bytes and its status byte.\<close>

definition dtc_id :: "byte list \<Rightarrow> nat \<Rightarrow> byte list" where
  "dtc_id d i = take 3 (drop (3 + i * 4) d)"

definition dtc_status :: "byte list \<Rightarrow> nat \<Rightarrow> byte" where
  "dtc_status d i = d ! (3 + i * 4 + 3)"

definition num_records :: "byte list \<Rightarrow> nat" where
  "num_records d = nat ((int (length d) - 3) div 4)"

text \<open>The keys of a dictionary filled from a list of keys: each key once, at its first place.\<close>

definition first_occurrences :: "'a list \<Rightarrow> 'a list" where
  "first_occurrences xs = rev (remdups (rev xs))"

text \<open>What \<^verbatim>\<open>get_dtcs\<close> returns for a response \<open>r\<close>: \<^verbatim>\<open>decode_dtcdata(r)\<close>, or its exception.\<close>

definition decoded_response :: "byte list \<Rightarrow> error + dtc_table option" where
  "decoded_response r =
     (case decode_dtcdata (Some r) of Inl e \<Rightarrow> Inl e | Inr dtcs \<Rightarrow> Inr (Some dtcs))"

text \<open>
  A bus on which sending always works and the ECU lets the first \<open>n\<close> requests time out,
  then answers every request with an empty table.
\<close>

definition timeout_bus :: "nat \<Rightarrow> nat bus" where
  "timeout_bus n =
     \<lparr>bus_send = (\<lambda>m s. (None, s)),
      isotp_request = (\<lambda>req s. (if s = 0 then Some [0x59, 0x02, 0xFF] else None, s - 1)),
      bus_state = n,
      bus_log = []\<rparr>"

text \<open>The message every probe sends: identifier \<^verbatim>\<open>0x3FD\<close>, not extended.\<close>

definition frame_3fd :: "byte list \<Rightarrow> can_message" where
  "frame_3fd payload = \<lparr>arbitration_id = 0x3FD, data = payload, is_extended_id = False\<rparr>"

text \<open>What \<open>n\<close> rounds of the burst leave in the log, and what cycling a list of counters does.\<close>

definition burst_trace :: "nat \<Rightarrow> can_message \<Rightarrow> event list" where
  "burst_trace n m = concat (replicate n [Send m, Sleep 10])"

definition cycle_trace :: "nat \<Rightarrow> nat \<Rightarrow> nat list \<Rightarrow> event list" where
  "cycle_trace byte shift counters =
     concat (map (\<lambda>counter. [Send (frame_3fd (counter_payload byte shift counter)), Sleep 10])
       counters)"

text \<open>
  Two more buses: one whose \<^verbatim>\<open>send\<close> always raises, and one on which sending works and
  every request times out.
\<close>

definition refusing_bus :: "unit bus" where
  "refusing_bus =
     \<lparr>bus_send = (\<lambda>m s. (Some CanError, s)),
      isotp_request = (\<lambda>req s. (Some [0x59, 0x02, 0xFF], s)),
      bus_state = (),
      bus_log = []\<rparr>"

definition silent_bus :: "unit bus" where
  "silent_bus =
     \<lparr>bus_send = (\<lambda>m s. (None, s)),
      isotp_request = (\<lambda>req s. (None, s)),
      bus_state = (),
      bus_log = []\<rparr>"

text \<open>The frames a log says were sent, in order.\<close>

definition sent_frames :: "event list \<Rightarrow> can_message list" where
  "sent_frames log = concat (map (\<lambda>ev. case ev of Send m \<Rightarrow> [m] | _ \<Rightarrow> []) log)"

text \<open>
  \<^verbatim>\<open>verify_checksum\<close> returned \<^verbatim>\<open>False\<close> for each candidate of a list in turn, every probe
  starting on the bus the one before left behind; the result is the bus after the last.
\<close>

fun rejected_all :: "'s bus \<Rightarrow> byte list \<Rightarrow> nat list \<Rightarrow> 's bus option" where
  "rejected_all bus message [] = Some bus"
| "rejected_all bus message (chksum # rest) =
     (case verify_checksum bus (of_nat chksum # message) of
        (Inr False, bus') \<Rightarrow> rejected_all bus' message rest
      | _ \<Rightarrow> None)"

text \<open>
  An ECU as the specification's end-to-end scenario describes it: the status it reports
  for DTC \<^verbatim>\<open>e09404\<close> depends on the payload of the frame it saw last.
\<close>

definition oracle_bus :: "(byte list \<Rightarrow> byte) \<Rightarrow> byte list bus" where
  "oracle_bus status =
     \<lparr>bus_send = (\<lambda>m s. (None, data m)),
      isotp_request = (\<lambda>req s. (Some [0x59, 0x02, 0xFF, 0xE0, 0x94, 0x04, status s], s)),
      bus_state = [],
      bus_log = []\<rparr>"

definition scenario_bus :: "byte list bus" where
  "scenario_bus = oracle_bus (\<lambda>p. if p = [0x37, 0x01, 0x02, 0x03, 0x04] then 0x2E else 0x2F)"

text \<open>The two lines \<^verbatim>\<open>find_counter_fields\<close> prints for a field it reports.\<close>

definition counter_report :: "nat \<Rightarrow> nat \<Rightarrow> nat \<Rightarrow> string" where
  "counter_report byte msk shift =
     ''Counter byte '' @ dec_digits byte @ '' mask '' @ format_hash_x (push_bit shift msk)"

definition status_report :: "byte \<Rightarrow> string" where
  "status_report s = ''   E09402 -> '' @ format_hash_x (unat s)"

text \<open>
  Probing a list of hypotheses (byte position, mask, shift) one after the other, as the
  specification words the search; an exception ends the run.
\<close>

fun run_hypotheses :: "(nat \<times> nat \<times> nat) list \<Rightarrow> 's bus \<Rightarrow> (error + unit) \<times> 's bus" where
  "run_hypotheses [] bus = (Inr (), bus)"
| "run_hypotheses ((byte, msk, shift) # rest) bus =
     (case probe_counter_field byte msk shift bus of
        (Inl e, bus') \<Rightarrow> (Inl e, bus')
      | (Inr _, bus') \<Rightarrow> run_hypotheses rest bus')"

text \<open>A bus on which sending always works and every request gets the same response.\<close>

definition answering_bus :: "byte list \<Rightarrow> unit bus" where
  "answering_bus response =
     \<lparr>bus_send = (\<lambda>m s. (None, s)),
      isotp_request = (\<lambda>req s. (Some response, s)),
      bus_state = (),
      bus_log = []\<rparr>"

section \<open>Properties of the decoder\<close>

lemma decode_records_foldl:
  "\<forall>i\<in>set is. 3 + i * 4 + 3 < length d \<Longrightarrow>
   decode_records d is acc =
     Inr (foldl (\<lambda>t i. dict_set t (bytes_hex (dtc_id d i)) (dtc_status d i)) acc is)"
  by (induction "is" arbitrary: acc) (simp_all add: dtc_id_def dtc_status_def Let_def)

lemma num_dtcs_in_range:
  assumes "(int (length d) - 3) mod 4 = 0" "d \<noteq> []"
  shows "\<forall>i\<in>set [0..<num_records d]. 3 + i * 4 + 3 < length d"
proof
  fix i assume "i \<in> set [0..<num_records d]"
  then have i: "int i < (int (length d) - 3) div 4" by (auto simp: num_records_def)
  from assms(2) have "length d > 0" by simp
  with assms(1) i show "3 + i * 4 + 3 < length d" by presburger
qed

lemma decode_dtcdata_ok:
  assumes "d \<noteq> []" "hd d = 0x59" "(int (length d) - 3) mod 4 = 0"
  shows "decode_dtcdata (Some d) =
     Inr (foldl (\<lambda>t i. dict_set t (bytes_hex (dtc_id d i)) (dtc_status d i)) []
           [0..<num_records d])"
  using assms decode_records_foldl [OF num_dtcs_in_range [OF assms(3) assms(1)]]
  by (cases d) (simp_all add: decode_dtcdata_def Let_def num_records_def)

lemma decode_dtcdata_fails_iff:
  "(\<exists>e. decode_dtcdata (Some d) = Inl e) \<longleftrightarrow>
     (d = [] \<or> hd d \<noteq> 0x59 \<or> (int (length d) - 3) mod 4 \<noteq> 0)"
proof (cases "d = [] \<or> hd d \<noteq> 0x59 \<or> (int (length d) - 3) mod 4 \<noteq> 0")
  case True
  then show ?thesis by (cases d) (auto simp: decode_dtcdata_def)
next
  case False
  then show ?thesis using decode_dtcdata_ok [of d] by simp
qed

lemma decode_dtcdata_error_kind:
  assumes d: "d \<noteq> []" and e: "decode_dtcdata (Some d) = Inl e"
  shows "malformed_response e"
proof -
  from e have "hd d \<noteq> 0x59 \<or> (int (length d) - 3) mod 4 \<noteq> 0"
    using decode_dtcdata_fails_iff [of d] d by auto
  with d e show ?thesis
    by (cases d) (auto simp: decode_dtcdata_def malformed_response_def split: if_splits)
qed


lemma keys_dict_set:
  "map fst (dict_set t k v) = (if k \<in> set (map fst t) then map fst t else map fst t @ [k])"
  by (induction t k v rule: dict_set.induct) auto

lemma first_occurrences_snoc:
  "first_occurrences (xs @ [k]) =
     (if k \<in> set xs then first_occurrences xs else first_occurrences xs @ [k])"
  by (simp add: first_occurrences_def)

lemma set_first_occurrences: "set (first_occurrences xs) = set xs"
  by (simp add: first_occurrences_def)

lemma length_first_occurrences: "length (first_occurrences xs) = card (set xs)"
  by (simp add: first_occurrences_def length_remdups_card_conv)

lemma first_occurrences_distinct: "distinct xs \<Longrightarrow> first_occurrences xs = xs"
  by (simp add: first_occurrences_def distinct_remdups_id)

lemma keys_foldl_dict_set:
  "map fst (foldl (\<lambda>t i. dict_set t (key i) (val i)) [] is) = first_occurrences (map key is)"
proof (induction "is" rule: rev_induct)
  case Nil
  show ?case by (simp add: first_occurrences_def)
next
  case (snoc i "is")
  have "set (map fst (foldl (\<lambda>t i. dict_set t (key i) (val i)) [] is)) = set (map key is)"
    by (simp only: snoc.IH set_first_occurrences)
  then show ?case
    by (simp add: keys_dict_set first_occurrences_snoc snoc.IH del: set_map)
qed


lemma hex_digit_inj: "i < 16 \<Longrightarrow> j < 16 \<Longrightarrow> hex_digit i = hex_digit j \<Longrightarrow> i = j"
proof -
  assume a: "i < 16" "j < 16" "hex_digit i = hex_digit j"
  have "distinct ''0123456789abcdef''" by simp
  moreover have "length ''0123456789abcdef'' = 16" by simp
  ultimately show ?thesis using a unfolding hex_digit_def
    by (metis nth_eq_iff_index_eq)
qed

lemma hex_byte_inj: "hex_byte a = hex_byte b \<Longrightarrow> a = b"
proof -
  assume h: "hex_byte a = hex_byte b"
  have la: "unat a < 256" using unsigned_less [of a] by simp
  have lb: "unat b < 256" using unsigned_less [of b] by simp
  from la lb have d: "unat a div 16 < 16" "unat b div 16 < 16" by auto
  from h have "hex_digit (unat a div 16) = hex_digit (unat b div 16)"
    and "hex_digit (unat a mod 16) = hex_digit (unat b mod 16)"
    by (simp_all add: hex_byte_def)
  then have "unat a div 16 = unat b div 16" "unat a mod 16 = unat b mod 16"
    using d by (auto intro: hex_digit_inj)
  then have "unat a = unat b" by (metis div_mult_mod_eq)
  then show ?thesis by (simp add: word_unat_eq_iff)
qed

lemma bytes_hex_Cons: "bytes_hex (x # xs) = hex_byte x @ bytes_hex xs"
  by (simp add: bytes_hex_def)

lemma length_hex_byte: "length (hex_byte x) = 2"
  by (simp add: hex_byte_def)

lemma bytes_hex_inj: "bytes_hex xs = bytes_hex ys \<Longrightarrow> xs = ys"
proof (induction xs arbitrary: ys)
  case Nil
  then show ?case by (cases ys) (simp_all add: bytes_hex_def hex_byte_def)
next
  case (Cons x xs)
  show ?case
  proof (cases ys)
    case Nil
    with Cons.prems show ?thesis by (simp add: bytes_hex_def hex_byte_def)
  next
    case (Cons y ys')
    with Cons.prems have "hex_byte x @ bytes_hex xs = hex_byte y @ bytes_hex ys'"
      by (simp add: bytes_hex_Cons)
    then have "hex_byte x = hex_byte y" "bytes_hex xs = bytes_hex ys'"
      by (simp_all add: length_hex_byte)
    then show ?thesis using Cons Cons.IH hex_byte_inj by blast
  qed
qed



text \<open>
  Claim C4, as the code has it. \<open>decode_dtcdata\<close> fails, and returns no table, exactly when the
  input is empty, or its first byte is not \<open>0x59\<close>, or its length minus 3 is not a multiple
  of 4. On every non-empty input the failure is one of the decoder's own two errors
  (\<open>malformed_response\<close>); so is the failure on three header bytes followed by a body of
  \<open>L\<close> bytes, for every \<open>L\<close> from 1 to 50 that 4 does not divide.
\<close>

theorem decode_dtcdata_rejects:
  "((\<exists>e. decode_dtcdata (Some d) = Inl e) \<longleftrightarrow>
      (d = [] \<or> hd d \<noteq> 0x59 \<or> (int (length d) - 3) mod 4 \<noteq> 0))
   \<and> (d \<noteq> [] \<longrightarrow> (\<forall>e. decode_dtcdata (Some d) = Inl e \<longrightarrow> malformed_response e))
   \<and> (length hdr = 3 \<and> 1 \<le> length body \<and> length body \<le> 50 \<and> \<not> 4 dvd length body \<longrightarrow>
        (\<exists>e. decode_dtcdata (Some (hdr @ body)) = Inl e \<and> malformed_response e))"
proof (intro conjI impI)
  show "(\<exists>e. decode_dtcdata (Some d) = Inl e) \<longleftrightarrow>
      (d = [] \<or> hd d \<noteq> 0x59 \<or> (int (length d) - 3) mod 4 \<noteq> 0)"
    by (rule decode_dtcdata_fails_iff)
next
  assume "d \<noteq> []"
  then show "\<forall>e. decode_dtcdata (Some d) = Inl e \<longrightarrow> malformed_response e"
    using decode_dtcdata_error_kind by blast
next
  assume a: "length hdr = 3 \<and> 1 \<le> length body \<and> length body \<le> 50 \<and> \<not> 4 dvd length body"
  then have ne: "hdr @ body \<noteq> []" by auto
  from a have "(int (length hdr + length body) - 3) mod 4 \<noteq> 0" by presburger
  then have "(int (length (hdr @ body)) - 3) mod 4 \<noteq> 0" by simp
  then obtain e where e: "decode_dtcdata (Some (hdr @ body)) = Inl e"
    using decode_dtcdata_fails_iff [of "hdr @ body"] by blast
  with ne show "\<exists>e. decode_dtcdata (Some (hdr @ body)) = Inl e \<and> malformed_response e"
    using decode_dtcdata_error_kind by blast
qed

theorem decode_dtcdata_rejects_witness:
  "(\<exists>e. decode_dtcdata (Some [0x59, 0x02, 0xFF, 0x01]) = Inl e \<and> malformed_response e)
   \<and> (\<exists>e. decode_dtcdata (Some [0x7F, 0x19, 0x11]) = Inl e \<and> malformed_response e)"
proof -
  have "\<exists>e. decode_dtcdata (Some ([0x59, 0x02, 0xFF] @ [0x01])) = Inl e \<and> malformed_response e"
    using decode_dtcdata_rejects [of "[]" "[0x59, 0x02, 0xFF]" "[0x01]"] by simp
  moreover have "\<exists>e. decode_dtcdata (Some [0x7F, 0x19, 0x11]) = Inl e \<and> malformed_response e"
    using decode_dtcdata_rejects [of "[0x7F, 0x19, 0x11]" "[]" "[]"] by auto
  ultimately show ?thesis by simp
qed

text \<open>
  Claim C4 as stated fails on the empty input: the first line of the decoder reads
  \<^verbatim>\<open>dtcdata[0]\<close>, which raises \<open>IndexError\<close> before either check is reached.
\<close>

theorem decode_dtcdata_empty_counterexample:
  "decode_dtcdata (Some []) = Inl IndexError \<and> \<not> malformed_response IndexError"
  by (simp add: decode_dtcdata_def malformed_response_def)

text \<open>
  Claim C5 as stated fails twice. One header byte followed by one record has length 5, and
  \<^verbatim>\<open>(5 - 3) % 4\<close> is 2: the decoder rejects it, the header it expects has three bytes. And two
  records with the same identifier leave one entry in the table.
\<close>

theorem decode_dtcdata_one_byte_header_counterexample:
  "decode_dtcdata (Some [0x59, 0xE0, 0x94, 0x04, 0x2F]) =
     Inl (RuntimeError (Unexpected_response_length 5))
   \<and> decode_dtcdata (Some [0x59, 0x02, 0xFF, 0xE0, 0x94, 0x04, 0x2F, 0xE0, 0x94, 0x04, 0x2E]) =
     Inr [(''e09404'', 0x2E)]"
  by (simp add: decode_dtcdata_def Let_def upt_rec bytes_hex_def hex_byte_def hex_digit_def)

text \<open>
  Claim C5, as the code has it. A header of three bytes, the first one \<open>0x59\<close>, followed by
  \<open>4 * N\<close> body bytes decodes. The table has one entry for each distinct identifier among
  the \<open>N\<close> records, in the order of first appearance: at most \<open>N\<close> entries, and exactly \<open>N\<close>
  when the identifiers are pairwise distinct.
\<close>

theorem decode_dtcdata_record_count:
  assumes "length hdr = 3" "hd hdr = 0x59" "length body = 4 * N"
  shows "\<exists>t. decode_dtcdata (Some (hdr @ body)) = Inr t
     \<and> map fst t = first_occurrences (map (\<lambda>i. bytes_hex (dtc_id (hdr @ body) i)) [0..<N])
     \<and> length t = card (dtc_id (hdr @ body) ` {..<N})
     \<and> length t \<le> N
     \<and> (distinct (map (dtc_id (hdr @ body)) [0..<N]) \<longrightarrow> length t = N)"
proof -
  let ?d = "hdr @ body"
  let ?t = "foldl (\<lambda>t i. dict_set t (bytes_hex (dtc_id ?d i)) (dtc_status ?d i)) [] [0..<N]"
  from assms have ne: "?d \<noteq> []" and hd: "hd ?d = 0x59" by (cases hdr; simp)+
  from assms have len: "(int (length ?d) - 3) mod 4 = 0" by simp
  from assms have N: "num_records ?d = N" by (simp add: num_records_def)
  have dec: "decode_dtcdata (Some ?d) = Inr ?t"
    using decode_dtcdata_ok [OF ne hd len] N by simp
  have keys: "map fst ?t = first_occurrences (map (\<lambda>i. bytes_hex (dtc_id ?d i)) [0..<N])"
    by (rule keys_foldl_dict_set)
  have "length ?t = length (map fst ?t)" by simp
  also have "\<dots> = card ((\<lambda>i. bytes_hex (dtc_id ?d i)) ` {..<N})"
    unfolding keys length_first_occurrences by (simp add: lessThan_atLeast0)
  also have "\<dots> = card (bytes_hex ` dtc_id ?d ` {..<N})"
    by (simp add: image_image)
  also have "\<dots> = card (dtc_id ?d ` {..<N})"
    by (rule card_image) (auto simp: inj_on_def dest: bytes_hex_inj)
  finally have card: "length ?t = card (dtc_id ?d ` {..<N})" .
  have le: "length ?t \<le> N"
    unfolding card using card_image_le [of "{..<N}" "dtc_id ?d"] by simp
  have "distinct (map (dtc_id ?d) [0..<N]) \<longrightarrow> length ?t = N"
    unfolding card by (auto simp: distinct_map lessThan_atLeast0 card_image)
  with dec keys card le show ?thesis by blast
qed

theorem decode_dtcdata_record_count_witness:
  "\<exists>t. decode_dtcdata (Some ([0x59, 0x02, 0xFF] @ [0xE0, 0x94, 0x04, 0x2F])) = Inr t
     \<and> length t = 1"
  using decode_dtcdata_record_count [of "[0x59, 0x02, 0xFF]" "[0xE0, 0x94, 0x04, 0x2F]" 1]
  by auto



section \<open>Properties of the oracle reads\<close>

lemma get_dtcs_tries_log:
  "\<exists>k\<le>n. bus_log (snd (get_dtcs_tries n bus status_mask)) =
            bus_log bus @ replicate k (Request [0x19, 0x02, status_mask])
        \<and> (0 < n \<longrightarrow> 0 < k)
        \<and> bus_send (snd (get_dtcs_tries n bus status_mask)) = bus_send bus
        \<and> isotp_request (snd (get_dtcs_tries n bus status_mask)) = isotp_request bus"
proof (induction n arbitrary: bus)
  case 0
  show ?case by simp
next
  case (Suc n)
  obtain r s' where rq: "isotp_request bus [0x19, 0x02, status_mask] (bus_state bus) = (r, s')"
    by (cases "isotp_request bus [0x19, 0x02, status_mask] (bus_state bus)")
  let ?bus' = "bus\<lparr>bus_state := s', bus_log := bus_log bus @ [Request [0x19, 0x02, status_mask]]\<rparr>"
  show ?case
  proof (cases r)
    case (Some resp)
    with rq have "bus_log (snd (get_dtcs_tries (Suc n) bus status_mask)) =
        bus_log bus @ replicate 1 (Request [0x19, 0x02, status_mask])"
      and "bus_send (snd (get_dtcs_tries (Suc n) bus status_mask)) = bus_send bus"
      and "isotp_request (snd (get_dtcs_tries (Suc n) bus status_mask)) = isotp_request bus"
      by (simp_all add: req_isotp_def)
    then show ?thesis by (intro exI [of _ 1]) simp
  next
    case None
    with rq have step: "get_dtcs_tries (Suc n) bus status_mask = get_dtcs_tries n ?bus' status_mask"
      by (simp add: req_isotp_def)
    from Suc.IH [of ?bus'] obtain k where k: "k \<le> n"
      "bus_log (snd (get_dtcs_tries n ?bus' status_mask)) =
         bus_log ?bus' @ replicate k (Request [0x19, 0x02, status_mask])"
      "bus_send (snd (get_dtcs_tries n ?bus' status_mask)) = bus_send ?bus'"
      "isotp_request (snd (get_dtcs_tries n ?bus' status_mask)) = isotp_request ?bus'"
      by blast
    show ?thesis
      by (intro exI [of _ "Suc k"]) (use k step in \<open>simp add: replicate_append_same [symmetric]\<close>)
  qed
qed

text \<open>
  Claim C7. For every status mask \<^verbatim>\<open>get_dtcs\<close> sends the request \<^verbatim>\<open>[0x19, 0x02, mask]\<close> at
  least once and at most three times. It returns the decoding of the first response
  that arrives, at the first, second or third attempt; when all three attempts time
  out it returns \<^verbatim>\<open>None\<close>, with no fourth request and no exception of its own.
\<close>

theorem get_dtcs_retries:
  fixes bus :: "'s bus" and status_mask :: byte
  defines "q \<equiv> [0x19, 0x02, status_mask]"
  shows
  "(\<forall>r s1. isotp_request bus q (bus_state bus) = (Some r, s1) \<longrightarrow>
      get_dtcs bus status_mask =
        (decoded_response r, bus\<lparr>bus_state := s1, bus_log := bus_log bus @ [Request q]\<rparr>))
   \<and> (\<forall>r s1 s2. isotp_request bus q (bus_state bus) = (None, s1)
         \<and> isotp_request bus q s1 = (Some r, s2) \<longrightarrow>
      get_dtcs bus status_mask =
        (decoded_response r, bus\<lparr>bus_state := s2, bus_log := bus_log bus @ [Request q, Request q]\<rparr>))
   \<and> (\<forall>r s1 s2 s3. isotp_request bus q (bus_state bus) = (None, s1)
         \<and> isotp_request bus q s1 = (None, s2) \<and> isotp_request bus q s2 = (Some r, s3) \<longrightarrow>
      get_dtcs bus status_mask =
        (decoded_response r,
         bus\<lparr>bus_state := s3, bus_log := bus_log bus @ [Request q, Request q, Request q]\<rparr>))
   \<and> (\<forall>s1 s2 s3. isotp_request bus q (bus_state bus) = (None, s1)
         \<and> isotp_request bus q s1 = (None, s2) \<and> isotp_request bus q s2 = (None, s3) \<longrightarrow>
      get_dtcs bus status_mask =
        (Inr None,
         bus\<lparr>bus_state := s3, bus_log := bus_log bus @ [Request q, Request q, Request q]\<rparr>))
   \<and> (\<exists>k. 1 \<le> k \<and> k \<le> 3 \<and>
        bus_log (snd (get_dtcs bus status_mask)) = bus_log bus @ replicate k (Request q))"
proof -
  have three: "(3::nat) = Suc (Suc (Suc 0))" by simp
  have tail: "\<exists>k. 1 \<le> k \<and> k \<le> 3 \<and>
        bus_log (snd (get_dtcs bus status_mask)) = bus_log bus @ replicate k (Request q)"
    using get_dtcs_tries_log [of 3 bus status_mask] unfolding get_dtcs_def q_def
    by (metis One_nat_def Suc_leI zero_less_numeral)
  have first: "\<forall>r s1. isotp_request bus q (bus_state bus) = (Some r, s1) \<longrightarrow>
      get_dtcs bus status_mask =
        (decoded_response r, bus\<lparr>bus_state := s1, bus_log := bus_log bus @ [Request q]\<rparr>)"
    unfolding get_dtcs_def three q_def by (simp add: req_isotp_def decoded_response_def)
  have second: "\<forall>r s1 s2. isotp_request bus q (bus_state bus) = (None, s1)
         \<and> isotp_request bus q s1 = (Some r, s2) \<longrightarrow>
      get_dtcs bus status_mask =
        (decoded_response r, bus\<lparr>bus_state := s2, bus_log := bus_log bus @ [Request q, Request q]\<rparr>)"
    unfolding get_dtcs_def three q_def by (simp add: req_isotp_def decoded_response_def)
  have third: "\<forall>r s1 s2 s3. isotp_request bus q (bus_state bus) = (None, s1)
         \<and> isotp_request bus q s1 = (None, s2) \<and> isotp_request bus q s2 = (Some r, s3) \<longrightarrow>
      get_dtcs bus status_mask =
        (decoded_response r,
         bus\<lparr>bus_state := s3, bus_log := bus_log bus @ [Request q, Request q, Request q]\<rparr>)"
    unfolding get_dtcs_def three q_def by (simp add: req_isotp_def decoded_response_def)
  have none: "\<forall>s1 s2 s3. isotp_request bus q (bus_state bus) = (None, s1)
         \<and> isotp_request bus q s1 = (None, s2) \<and> isotp_request bus q s2 = (None, s3) \<longrightarrow>
      get_dtcs bus status_mask =
        (Inr None,
         bus\<lparr>bus_state := s3, bus_log := bus_log bus @ [Request q, Request q, Request q]\<rparr>)"
    unfolding get_dtcs_def three q_def by (simp add: req_isotp_def)
  from first second third none tail show ?thesis by (intro conjI)
qed

theorem get_dtcs_retries_witness:
  "fst (get_dtcs (timeout_bus 3) 0x0C) = Inr None
   \<and> bus_log (snd (get_dtcs (timeout_bus 3) 0x0C)) = replicate 3 (Request [0x19, 0x02, 0x0C])
   \<and> fst (get_dtcs (timeout_bus 1) 0x0C) = Inr (Some [])
   \<and> bus_log (snd (get_dtcs (timeout_bus 1) 0x0C)) = replicate 2 (Request [0x19, 0x02, 0x0C])"
proof -
  have d: "decoded_response [0x59, 0x02, 0xFF] = Inr (Some [])"
    by (simp add: decoded_response_def decode_dtcdata_def)
  from get_dtcs_retries [of "timeout_bus 3" "0x0C"]
  have "get_dtcs (timeout_bus 3) 0x0C =
      (Inr None, (timeout_bus 3)\<lparr>bus_state := 0,
         bus_log := bus_log (timeout_bus 3) @ replicate 3 (Request [0x19, 0x02, 0x0C])\<rparr>)"
    by (simp add: timeout_bus_def numeral_3_eq_3)
  moreover from get_dtcs_retries [of "timeout_bus 1" "0x0C"]
  have "get_dtcs (timeout_bus 1) 0x0C =
      (decoded_response [0x59, 0x02, 0xFF], (timeout_bus 1)\<lparr>bus_state := 0,
         bus_log := bus_log (timeout_bus 1) @ replicate 2 (Request [0x19, 0x02, 0x0C])\<rparr>)"
    by (simp add: timeout_bus_def numeral_2_eq_2)
  ultimately show ?thesis by (simp add: d timeout_bus_def)
qed

text \<open>
  Claim C10. \<^verbatim>\<open>get_supported_dtcs\<close> sends its request exactly once and hands whatever came
  back to the decoder. When the request times out, the decoder gets \<^verbatim>\<open>None\<close> and raises
  \<open>TypeError\<close>; there is no second attempt and no absent result as in \<^verbatim>\<open>get_dtcs\<close>.
\<close>

theorem get_supported_dtcs_no_retry:
  "(\<forall>s1. isotp_request bus [0x19, 0x0A] (bus_state bus) = (None, s1) \<longrightarrow>
      get_supported_dtcs bus =
        (Inl TypeError, bus\<lparr>bus_state := s1, bus_log := bus_log bus @ [Request [0x19, 0x0A]]\<rparr>))
   \<and> fst (get_supported_dtcs bus) =
        decode_dtcdata (fst (isotp_request bus [0x19, 0x0A] (bus_state bus)))
   \<and> bus_log (snd (get_supported_dtcs bus)) = bus_log bus @ [Request [0x19, 0x0A]]"
  by (auto simp: get_supported_dtcs_def req_isotp_def decode_dtcdata_def split: prod.splits)

theorem get_supported_dtcs_no_retry_witness:
  "get_supported_dtcs (timeout_bus 1) =
     (Inl TypeError, (timeout_bus 1)\<lparr>bus_state := 0, bus_log := [Request [0x19, 0x0A]]\<rparr>)
   \<and> fst (get_dtcs (timeout_bus 3) 0x0C) = Inr None"
proof -
  from get_supported_dtcs_no_retry [of "timeout_bus 1"]
  have "get_supported_dtcs (timeout_bus 1) =
     (Inl TypeError, (timeout_bus 1)\<lparr>bus_state := 0,
        bus_log := bus_log (timeout_bus 1) @ [Request [0x19, 0x0A]]\<rparr>)"
    by (simp add: timeout_bus_def)
  moreover have "fst (get_dtcs (timeout_bus 3) 0x0C) = Inr None"
    by (simp add: get_dtcs_def timeout_bus_def req_isotp_def numeral_3_eq_3)
  ultimately show ?thesis by (simp add: timeout_bus_def)
qed

section \<open>Properties of the probe\<close>

lemma burst_trace_Suc: "burst_trace (Suc n) m = [Send m, Sleep 10] @ burst_trace n m"
  by (simp add: burst_trace_def)

lemma burst_trace_0: "burst_trace 0 m = []"
  by (simp add: burst_trace_def)

lemma burst_ok:
  "\<forall>m s. fst (bus_send bus m s) = None \<Longrightarrow>
   \<exists>s'. burst n m bus = (Inr (), bus\<lparr>bus_state := s', bus_log := bus_log bus @ burst_trace n m\<rparr>)"
proof (induction n arbitrary: bus)
  case 0
  show ?case by (intro exI [of _ "bus_state bus"]) (simp add: burst_trace_0)
next
  case (Suc n)
  obtain s1 where s1: "bus_send bus m (bus_state bus) = (None, s1)"
    using Suc.prems by (metis fst_conv surj_pair)
  let ?bus' = "bus\<lparr>bus_state := s1, bus_log := bus_log bus @ [Send m, Sleep 10]\<rparr>"
  have step: "burst (Suc n) m bus = burst n m ?bus'"
    using s1 by (simp add: do_send_def do_sleep_def)
  from Suc.prems have "\<forall>m s. fst (bus_send ?bus' m s) = None" by simp
  from Suc.IH [OF this] obtain s' where
    "burst n m ?bus' = (Inr (), ?bus'\<lparr>bus_state := s', bus_log := bus_log ?bus' @ burst_trace n m\<rparr>)"
    by blast
  with step show ?case by (intro exI [of _ s']) (simp add: burst_trace_Suc)
qed

lemma burst_raises:
  "burst n m bus = (Inl e, bus') \<Longrightarrow>
   \<exists>k<n. bus_log bus' = bus_log bus @ burst_trace k m @ [Send m]"
proof (induction n arbitrary: bus)
  case 0
  then show ?case by simp
next
  case (Suc n)
  obtain r s1 where s1: "bus_send bus m (bus_state bus) = (r, s1)"
    by (cases "bus_send bus m (bus_state bus)")
  show ?case
  proof (cases r)
    case (Some e')
    with s1 Suc.prems have "bus_log bus' = bus_log bus @ burst_trace 0 m @ [Send m]"
      by (auto simp: do_send_def burst_trace_0)
    then show ?thesis by blast
  next
    case None
    let ?bus1 = "bus\<lparr>bus_state := s1, bus_log := bus_log bus @ [Send m, Sleep 10]\<rparr>"
    from None s1 Suc.prems have "burst n m ?bus1 = (Inl e, bus')"
      by (simp add: do_send_def do_sleep_def)
    from Suc.IH [OF this] obtain k where "k < n"
      "bus_log bus' = bus_log ?bus1 @ burst_trace k m @ [Send m]" by blast
    then have "Suc k < Suc n" "bus_log bus' = bus_log bus @ burst_trace (Suc k) m @ [Send m]"
      by (simp_all add: burst_trace_Suc)
    then show ?thesis by blast
  qed
qed

lemma get_dtcs_tries_bus:
  "\<exists>k s'. k \<le> n \<and> (0 < n \<longrightarrow> 0 < k) \<and>
      snd (get_dtcs_tries n bus status_mask) =
        bus\<lparr>bus_state := s', bus_log := bus_log bus @ replicate k (Request [0x19, 0x02, status_mask])\<rparr>"
proof (induction n arbitrary: bus)
  case 0
  show ?case by (intro exI [of _ 0] exI [of _ "bus_state bus"]) simp
next
  case (Suc n)
  obtain r s1 where rq: "isotp_request bus [0x19, 0x02, status_mask] (bus_state bus) = (r, s1)"
    by (cases "isotp_request bus [0x19, 0x02, status_mask] (bus_state bus)")
  let ?bus' = "bus\<lparr>bus_state := s1, bus_log := bus_log bus @ [Request [0x19, 0x02, status_mask]]\<rparr>"
  show ?case
  proof (cases r)
    case (Some resp)
    with rq show ?thesis
      by (intro exI [of _ 1] exI [of _ s1]) (simp add: req_isotp_def)
  next
    case None
    with rq have step: "get_dtcs_tries (Suc n) bus status_mask = get_dtcs_tries n ?bus' status_mask"
      by (simp add: req_isotp_def)
    from Suc.IH [of ?bus'] obtain k s' where k: "k \<le> n"
      "snd (get_dtcs_tries n ?bus' status_mask) =
         ?bus'\<lparr>bus_state := s', bus_log := bus_log ?bus' @ replicate k (Request [0x19, 0x02, status_mask])\<rparr>"
      by blast
    show ?thesis
      by (intro exI [of _ "Suc k"] exI [of _ s'])
        (use k step in \<open>simp add: replicate_append_same [symmetric]\<close>)
  qed
qed

lemma get_dtcs_tries_timeout:
  "\<forall>q s. fst (isotp_request bus q s) = None \<Longrightarrow>
   \<exists>s'. get_dtcs_tries n bus status_mask =
     (Inr None, bus\<lparr>bus_state := s',
        bus_log := bus_log bus @ replicate n (Request [0x19, 0x02, status_mask])\<rparr>)"
proof (induction n arbitrary: bus)
  case 0
  show ?case by (intro exI [of _ "bus_state bus"]) simp
next
  case (Suc n)
  obtain s1 where rq: "isotp_request bus [0x19, 0x02, status_mask] (bus_state bus) = (None, s1)"
    using Suc.prems by (metis fst_conv surj_pair)
  let ?bus' = "bus\<lparr>bus_state := s1, bus_log := bus_log bus @ [Request [0x19, 0x02, status_mask]]\<rparr>"
  have step: "get_dtcs_tries (Suc n) bus status_mask = get_dtcs_tries n ?bus' status_mask"
    using rq by (simp add: req_isotp_def)
  from Suc.prems have "\<forall>q s. fst (isotp_request ?bus' q s) = None" by simp
  from Suc.IH [OF this] obtain s' where
    "get_dtcs_tries n ?bus' status_mask =
      (Inr None, ?bus'\<lparr>bus_state := s',
        bus_log := bus_log ?bus' @ replicate n (Request [0x19, 0x02, status_mask])\<rparr>)"
    by blast
  with step show ?case
    by (intro exI [of _ s']) (simp add: replicate_append_same [symmetric])
qed

lemma verify_checksum_after_burst:
  assumes "burst 16 (frame_3fd payload) bus = (Inr (), bus1)"
  shows "snd (verify_checksum bus payload) = snd (get_dtcs (do_sleep 100 bus1) 0x0C)"
    and "fst (verify_checksum bus payload) =
      (case fst (get_dtcs (do_sleep 100 bus1) 0x0C) of
         Inl e \<Rightarrow> Inl e
       | Inr None \<Rightarrow> Inl AttributeError
       | Inr (Some dtcs) \<Rightarrow> Inr (dict_get dtcs ''e09404'' (Str ''missing'') = Status 0x2e))"
  using assms
  by (auto simp: verify_checksum_def frame_3fd_def Let_def split: prod.splits sum.splits option.splits)

lemma verify_checksum_burst_raises:
  assumes "burst 16 (frame_3fd payload) bus = (Inl e, bus')"
  shows "verify_checksum bus payload = (Inl e, bus')"
  using assms by (simp add: verify_checksum_def frame_3fd_def)

lemma burst_step:
  "0 < n \<Longrightarrow> burst n m bus =
     (case do_send m bus of
        (Inl e, bus') \<Rightarrow> (Inl e, bus')
      | (Inr _, bus') \<Rightarrow> burst (n - 1) m (do_sleep 10 bus'))"
  by (cases n) (auto split: prod.splits sum.splits)

lemma refusing_burst:
  "burst 16 (frame_3fd p) refusing_bus =
     (Inl CanError, refusing_bus\<lparr>bus_log := [Send (frame_3fd p)]\<rparr>)"
  by (simp add: burst_step [of 16] do_send_def refusing_bus_def)

text \<open>
  Claim C8 as stated fails when \<^verbatim>\<open>bus.send\<close> raises: nothing in \<^verbatim>\<open>verify_checksum\<close> catches the
  exception, so on a bus that refuses the first frame one send is made, the table is
  never read, and the exception leaves the function.
\<close>

theorem verify_checksum_send_raises_counterexample:
  "verify_checksum refusing_bus [0x37, 0x01, 0x02, 0x03, 0x04] =
     (Inl CanError,
      refusing_bus\<lparr>bus_log :=
        [Send \<lparr>arbitration_id = 0x3FD, data = [0x37, 0x01, 0x02, 0x03, 0x04],
               is_extended_id = False\<rparr>]\<rparr>)"
  by (simp add: verify_checksum_def burst_step [of 16] do_send_def refusing_bus_def)

text \<open>
  Claim C8, as the code has it. On a bus whose \<^verbatim>\<open>send\<close> returns normally, whatever state
  each send leaves behind, \<^verbatim>\<open>verify_checksum\<close> sends the frame exactly 16 times, each send
  followed by 10 ms, then waits 100 ms, and only then reads the table (one to three
  requests). When a send raises, the burst stops at that send, after fewer than 16 full
  rounds, and the exception leaves \<^verbatim>\<open>verify_checksum\<close> with no read of the table.
\<close>

theorem verify_checksum_burst:
  "((\<forall>m s. fst (bus_send bus m s) = None) \<longrightarrow>
      (\<exists>k. 1 \<le> k \<and> k \<le> 3 \<and>
         bus_log (snd (verify_checksum bus payload)) =
           bus_log bus @ burst_trace 16 (frame_3fd payload) @ [Sleep 100]
             @ replicate k (Request [0x19, 0x02, 0x0C])))
   \<and> (\<forall>e bus'. burst 16 (frame_3fd payload) bus = (Inl e, bus') \<longrightarrow>
        verify_checksum bus payload = (Inl e, bus')
        \<and> (\<exists>k<16. bus_log bus' =
              bus_log bus @ burst_trace k (frame_3fd payload) @ [Send (frame_3fd payload)]))"
proof (intro conjI impI allI)
  assume ok: "\<forall>m s. fst (bus_send bus m s) = None"
  from burst_ok [OF ok, of 16 "frame_3fd payload"] obtain s' where
    b: "burst 16 (frame_3fd payload) bus =
      (Inr (), bus\<lparr>bus_state := s', bus_log := bus_log bus @ burst_trace 16 (frame_3fd payload)\<rparr>)"
    by blast
  let ?bus1 = "bus\<lparr>bus_state := s', bus_log := bus_log bus @ burst_trace 16 (frame_3fd payload)\<rparr>"
  from get_dtcs_tries_bus [of 3 "do_sleep 100 ?bus1" "0x0C"] obtain k s'' where
    k: "k \<le> 3" "0 < k"
    "snd (get_dtcs (do_sleep 100 ?bus1) 0x0C) =
       (do_sleep 100 ?bus1)\<lparr>bus_state := s'',
          bus_log := bus_log (do_sleep 100 ?bus1) @ replicate k (Request [0x19, 0x02, 0x0C])\<rparr>"
    unfolding get_dtcs_def by auto
  have "bus_log (snd (verify_checksum bus payload)) =
      bus_log bus @ burst_trace 16 (frame_3fd payload) @ [Sleep 100]
        @ replicate k (Request [0x19, 0x02, 0x0C])"
    unfolding verify_checksum_after_burst(1) [OF b] k(3) by (simp add: do_sleep_def)
  with k(1,2) show "\<exists>k. 1 \<le> k \<and> k \<le> 3 \<and>
         bus_log (snd (verify_checksum bus payload)) =
           bus_log bus @ burst_trace 16 (frame_3fd payload) @ [Sleep 100]
             @ replicate k (Request [0x19, 0x02, 0x0C])"
    by (intro exI [of _ k]) simp
next
  fix e bus' assume "burst 16 (frame_3fd payload) bus = (Inl e, bus')"
  then show "verify_checksum bus payload = (Inl e, bus')"
    by (rule verify_checksum_burst_raises)
next
  fix e bus' assume "burst 16 (frame_3fd payload) bus = (Inl e, bus')"
  then show "\<exists>k<16. bus_log bus' =
      bus_log bus @ burst_trace k (frame_3fd payload) @ [Send (frame_3fd payload)]"
    by (rule burst_raises)
qed

theorem verify_checksum_burst_witness:
  "(\<exists>k. 1 \<le> k \<and> k \<le> 3 \<and>
      bus_log (snd (verify_checksum (timeout_bus 0) [0x37, 0x01, 0x02, 0x03, 0x04])) =
        burst_trace 16 (frame_3fd [0x37, 0x01, 0x02, 0x03, 0x04]) @ [Sleep 100]
          @ replicate k (Request [0x19, 0x02, 0x0C]))
   \<and> verify_checksum refusing_bus [0x37, 0x01, 0x02, 0x03, 0x04] =
       (Inl CanError, refusing_bus\<lparr>bus_log := [Send (frame_3fd [0x37, 0x01, 0x02, 0x03, 0x04])]\<rparr>)"
proof -
  have "\<forall>m s. fst (bus_send (timeout_bus 0) m s) = None" by (simp add: timeout_bus_def)
  with verify_checksum_burst [of "timeout_bus 0" "[0x37, 0x01, 0x02, 0x03, 0x04]"]
  have "\<exists>k. 1 \<le> k \<and> k \<le> 3 \<and>
      bus_log (snd (verify_checksum (timeout_bus 0) [0x37, 0x01, 0x02, 0x03, 0x04])) =
        bus_log (timeout_bus 0) @ burst_trace 16 (frame_3fd [0x37, 0x01, 0x02, 0x03, 0x04])
          @ [Sleep 100] @ replicate k (Request [0x19, 0x02, 0x0C])"
    by blast
  moreover have "bus_log (timeout_bus 0) = []" by (simp add: timeout_bus_def)
  moreover from verify_checksum_burst [of refusing_bus "[0x37, 0x01, 0x02, 0x03, 0x04]"]
    refusing_burst [of "[0x37, 0x01, 0x02, 0x03, 0x04]"]
  have "verify_checksum refusing_bus [0x37, 0x01, 0x02, 0x03, 0x04] =
       (Inl CanError, refusing_bus\<lparr>bus_log := [Send (frame_3fd [0x37, 0x01, 0x02, 0x03, 0x04])]\<rparr>)"
    by blast
  ultimately show ?thesis by simp
qed

section \<open>Properties of the checksum search\<close>

lemma sent_frames_append: "sent_frames (xs @ ys) = sent_frames xs @ sent_frames ys"
  by (simp add: sent_frames_def)

lemma sent_frames_burst_trace: "sent_frames (burst_trace n m) = replicate n m"
  by (induction n) (simp_all add: burst_trace_Suc burst_trace_0 sent_frames_def)

lemma sent_frames_requests: "sent_frames (replicate k (Request q)) = []"
  by (induction k) (simp_all add: sent_frames_def)

lemma burst_returns_log:
  "burst n m bus = (Inr u, bus1) \<Longrightarrow> bus_log bus1 = bus_log bus @ burst_trace n m"
proof (induction n arbitrary: bus)
  case 0
  then show ?case by (simp add: burst_trace_0)
next
  case (Suc n)
  obtain r s1 where s1: "bus_send bus m (bus_state bus) = (r, s1)"
    by (cases "bus_send bus m (bus_state bus)")
  let ?bus' = "bus\<lparr>bus_state := s1, bus_log := bus_log bus @ [Send m, Sleep 10]\<rparr>"
  from Suc.prems s1 have "r = None" by (cases r) (simp_all add: do_send_def)
  with Suc.prems s1 have "burst n m ?bus' = (Inr u, bus1)"
    by (simp add: do_send_def do_sleep_def)
  from Suc.IH [OF this] show ?case by (simp add: burst_trace_Suc)
qed

lemma verify_checksum_returns:
  assumes "verify_checksum bus payload = (Inr b, bus2)"
  shows "\<exists>bus1 dtcs. burst 16 (frame_3fd payload) bus = (Inr (), bus1)
     \<and> get_dtcs (do_sleep 100 bus1) 0x0C = (Inr (Some dtcs), bus2)
     \<and> b = (dict_get dtcs ''e09404'' (Str ''missing'') = Status 0x2e)"
  using assms
  by (auto simp: verify_checksum_def frame_3fd_def Let_def
      split: prod.splits sum.splits option.splits)

lemma verify_checksum_returns_frames:
  assumes "verify_checksum bus payload = (Inr b, bus2)"
  shows "sent_frames (bus_log bus2) = sent_frames (bus_log bus) @ replicate 16 (frame_3fd payload)"
proof -
  from verify_checksum_returns [OF assms] obtain bus1 dtcs where
    b: "burst 16 (frame_3fd payload) bus = (Inr (), bus1)"
    and g: "get_dtcs (do_sleep 100 bus1) 0x0C = (Inr (Some dtcs), bus2)" by blast
  from get_dtcs_tries_bus [of 3 "do_sleep 100 bus1" "0x0C"] g obtain k where
    "bus_log bus2 = bus_log (do_sleep 100 bus1) @ replicate k (Request [0x19, 0x02, 0x0C])"
    unfolding get_dtcs_def by auto
  then have "bus_log bus2 = bus_log bus @ burst_trace 16 (frame_3fd payload) @ [Sleep 100]
      @ replicate k (Request [0x19, 0x02, 0x0C])"
    using burst_returns_log [OF b] by (simp add: do_sleep_def)
  then show ?thesis
    by (simp add: sent_frames_append sent_frames_burst_trace sent_frames_requests)
      (simp add: sent_frames_def)
qed

lemma rejected_all_frames:
  "rejected_all bus message cs = Some bus1 \<Longrightarrow>
   sent_frames (bus_log bus1) =
     sent_frames (bus_log bus)
       @ concat (map (\<lambda>c. replicate 16 (frame_3fd (of_nat c # message))) cs)"
proof (induction cs arbitrary: bus)
  case Nil
  then show ?case by simp
next
  case (Cons c cs)
  from Cons.prems obtain bus' where
    v: "verify_checksum bus (of_nat c # message) = (Inr False, bus')"
    and r: "rejected_all bus' message cs = Some bus1"
    by (auto split: prod.splits sum.splits bool.splits if_splits)
  from Cons.IH [OF r] verify_checksum_returns_frames [OF v] show ?case by simp
qed

lemma find_checksum_from_rejected:
  "rejected_all bus message pre = Some bus1 \<Longrightarrow>
   find_checksum_from bus message (pre @ rest) = find_checksum_from bus1 message rest"
proof (induction pre arbitrary: bus)
  case Nil
  then show ?case by simp
next
  case (Cons c cs)
  from Cons.prems obtain bus' where
    v: "verify_checksum bus (of_nat c # message) = (Inr False, bus')"
    and r: "rejected_all bus' message cs = Some bus1"
    by (auto split: prod.splits sum.splits bool.splits if_splits)
  from Cons.IH [OF r] v show ?case by simp
qed

lemma find_checksum_from_found:
  "find_checksum_from bus message cs = (Inr c, bus2) \<Longrightarrow>
   \<exists>pre post bus1. cs = pre @ c # post \<and> rejected_all bus message pre = Some bus1
      \<and> verify_checksum bus1 (of_nat c # message) = (Inr True, bus2)"
proof (induction cs arbitrary: bus)
  case Nil
  then show ?case by simp
next
  case (Cons d cs)
  obtain r bus' where v: "verify_checksum bus (of_nat d # message) = (r, bus')"
    by (cases "verify_checksum bus (of_nat d # message)")
  show ?case
  proof (cases r)
    case (Inl e)
    with v Cons.prems show ?thesis by simp
  next
    case (Inr b)
    show ?thesis
    proof (cases b)
      case True
      with Inr v Cons.prems have "c = d" "bus2 = bus'" by simp_all
      with True Inr v have "d # cs = [] @ c # cs \<and> rejected_all bus message [] = Some bus
        \<and> verify_checksum bus (of_nat c # message) = (Inr True, bus2)" by simp
      then show ?thesis by blast
    next
      case False
      with Inr v Cons.prems have "find_checksum_from bus' message cs = (Inr c, bus2)" by simp
      from Cons.IH [OF this] obtain pre post bus1 where
        "cs = pre @ c # post" "rejected_all bus' message pre = Some bus1"
        "verify_checksum bus1 (of_nat c # message) = (Inr True, bus2)" by blast
      with False Inr v have "d # cs = (d # pre) @ c # post
        \<and> rejected_all bus message (d # pre) = Some bus1
        \<and> verify_checksum bus1 (of_nat c # message) = (Inr True, bus2)" by simp
      then show ?thesis by blast
    qed
  qed
qed

lemma upt_split: "c < n \<Longrightarrow> [0..<n] = [0..<c] @ c # [Suc c..<n]"
  by (metis le_add1 less_imp_add_positive upt_add_eq_append upt_conv_Cons plus_nat.add_0)

lemma upt_eq_split:
  assumes "[0..<n] = pre @ c # post"
  shows "pre = [0..<c] \<and> c < n"
proof -
  from assms have len: "length pre < n"
    by (metis length_append length_upt diff_zero less_add_same_cancel1 length_Cons zero_less_Suc)
  from assms have "[0..<n] ! length pre = c" by simp
  with len have c: "c = length pre" by simp
  from assms have "take (length pre) [0..<n] = pre" by simp
  with len c show ?thesis by (simp add: take_upt)
qed

lemma burst_oracle:
  assumes "bus_send bus = (\<lambda>m s. (None, data m))"
  shows "burst (Suc n) (frame_3fd p) bus =
     (Inr (), bus\<lparr>bus_state := p, bus_log := bus_log bus @ burst_trace (Suc n) (frame_3fd p)\<rparr>)"
  using assms
proof (induction n arbitrary: bus)
  case 0
  then show ?case by (simp add: do_send_def do_sleep_def burst_trace_def frame_3fd_def)
next
  case (Suc n)
  let ?bus' = "bus\<lparr>bus_state := p, bus_log := bus_log bus @ [Send (frame_3fd p), Sleep 10]\<rparr>"
  have step: "burst (Suc (Suc n)) (frame_3fd p) bus = burst (Suc n) (frame_3fd p) ?bus'"
    using Suc.prems by (simp add: do_send_def do_sleep_def frame_3fd_def)
  have "bus_send ?bus' = (\<lambda>m s. (None, data m))" using Suc.prems by simp
  from Suc.IH [OF this] step show ?case
    by (simp add: burst_trace_Suc)
qed

lemma decode_single_record:
  "decode_dtcdata (Some [0x59, 0x02, 0xFF, 0xE0, 0x94, 0x04, st]) = Inr [(''e09404'', st)]"
  by (simp add: decode_dtcdata_def Let_def upt_rec bytes_hex_def hex_byte_def hex_digit_def)

lemma get_dtcs_answered:
  assumes "isotp_request bus [0x19, 0x02, status_mask] (bus_state bus) = (Some r, s1)"
  shows "get_dtcs bus status_mask =
     (decoded_response r,
      bus\<lparr>bus_state := s1, bus_log := bus_log bus @ [Request [0x19, 0x02, status_mask]]\<rparr>)"
proof -
  have three: "(3::nat) = Suc (Suc (Suc 0))" by simp
  show ?thesis
    unfolding get_dtcs_def three using assms by (simp add: req_isotp_def decoded_response_def)
qed

lemma verify_checksum_oracle:
  assumes "bus_send bus = (\<lambda>m s. (None, data m))"
    and "isotp_request bus =
      (\<lambda>req s. (Some [0x59, 0x02, 0xFF, 0xE0, 0x94, 0x04, status s], s))"
  shows "verify_checksum bus p =
     (Inr (status p = 0x2E),
      bus\<lparr>bus_state := p,
          bus_log := bus_log bus @ burst_trace 16 (frame_3fd p)
            @ [Sleep 100, Request [0x19, 0x02, 0x0C]]\<rparr>)"
proof -
  have b: "burst 16 (frame_3fd p) bus =
     (Inr (), bus\<lparr>bus_state := p, bus_log := bus_log bus @ burst_trace 16 (frame_3fd p)\<rparr>)"
    using burst_oracle [OF assms(1), of 15 p] by simp
  let ?bus1 = "do_sleep 100
    (bus\<lparr>bus_state := p, bus_log := bus_log bus @ burst_trace 16 (frame_3fd p)\<rparr>)"
  have "isotp_request ?bus1 [0x19, 0x02, 0x0C] (bus_state ?bus1) =
      (Some [0x59, 0x02, 0xFF, 0xE0, 0x94, 0x04, status p], p)"
    by (simp add: do_sleep_def assms(2))
  from get_dtcs_answered [OF this]
  have g: "get_dtcs ?bus1 0x0C =
     (Inr (Some [(''e09404'', status p)]),
      ?bus1\<lparr>bus_state := p, bus_log := bus_log ?bus1 @ [Request [0x19, 0x02, 0x0C]]\<rparr>)"
    by (simp add: decoded_response_def decode_single_record)
  show ?thesis
    unfolding verify_checksum_def frame_3fd_def [symmetric] Let_def b
    by (simp add: g) (simp add: do_sleep_def dict_get_def)
qed

lemma rejected_all_oracle:
  assumes "bus_send bus = (\<lambda>m s. (None, data m))"
    and "isotp_request bus =
      (\<lambda>req s. (Some [0x59, 0x02, 0xFF, 0xE0, 0x94, 0x04, status s], s))"
    and "\<forall>c\<in>set cs. status (of_nat c # message) \<noteq> 0x2E"
  shows "\<exists>bus1. rejected_all bus message cs = Some bus1
     \<and> bus_send bus1 = bus_send bus \<and> isotp_request bus1 = isotp_request bus"
  using assms
proof (induction cs arbitrary: bus)
  case Nil
  then show ?case by simp
next
  case (Cons c cs)
  let ?p = "of_nat c # message"
  let ?bus' = "bus\<lparr>bus_state := ?p,
          bus_log := bus_log bus @ burst_trace 16 (frame_3fd ?p)
            @ [Sleep 100, Request [0x19, 0x02, 0x0C]]\<rparr>"
  from Cons.prems have v: "verify_checksum bus ?p = (Inr False, ?bus')"
    using verify_checksum_oracle [of bus status ?p] by simp
  have "bus_send ?bus' = (\<lambda>m s. (None, data m))"
    "isotp_request ?bus' = (\<lambda>req s. (Some [0x59, 0x02, 0xFF, 0xE0, 0x94, 0x04, status s], s))"
    "\<forall>c\<in>set cs. status (of_nat c # message) \<noteq> 0x2E"
    using Cons.prems by simp_all
  from Cons.IH [OF this] v show ?case by simp
qed

lemma byte_of_nat_eq: "c < 256 \<Longrightarrow> (of_nat c :: byte) = 0x37 \<longleftrightarrow> c = 55"
proof -
  assume "c < 256"
  then have "unat (of_nat c :: byte) = c" by (simp add: unat_of_nat)
  moreover have "unat (0x37 :: byte) = 55" by simp
  ultimately show ?thesis by (metis word_unat_eq_iff)
qed


lemma find_checksum_4: "length message = 4 \<Longrightarrow>
   find_checksum bus message = find_checksum_from bus message [0..<0x100]"
  by (simp add: find_checksum_def)

lemma scenario_rejects:
  "c < 256 \<Longrightarrow> c \<noteq> 55 \<Longrightarrow>
   (if of_nat c # [0x01, 0x02, 0x03, 0x04] = [0x37, 0x01, 0x02, 0x03, 0x04 :: byte]
    then 0x2E else (0x2F :: byte)) \<noteq> 0x2E"
  by (simp add: byte_of_nat_eq)

lemma scenario_probes:
  "\<exists>bus1 bus2. rejected_all scenario_bus [0x01, 0x02, 0x03, 0x04] [0..<0x37] = Some bus1
     \<and> verify_checksum bus1 (of_nat 0x37 # [0x01, 0x02, 0x03, 0x04]) = (Inr True, bus2)"
proof -
  let ?st = "\<lambda>p. if p = [0x37, 0x01, 0x02, 0x03, 0x04] then 0x2E else (0x2F :: byte)"
  let ?m = "[0x01, 0x02, 0x03, 0x04] :: byte list"
  have s: "bus_send scenario_bus = (\<lambda>m s. (None, data m))"
    and q: "isotp_request scenario_bus =
      (\<lambda>req s. (Some [0x59, 0x02, 0xFF, 0xE0, 0x94, 0x04, ?st s], s))"
    by (simp_all add: scenario_bus_def oracle_bus_def)
  have "\<forall>c\<in>set [0..<0x37]. ?st (of_nat c # ?m) \<noteq> 0x2E"
    using scenario_rejects by auto
  from rejected_all_oracle [OF s q this] obtain bus1 where
    r: "rejected_all scenario_bus ?m [0..<0x37] = Some bus1"
    and s1: "bus_send bus1 = (\<lambda>m s. (None, data m))"
    and q1: "isotp_request bus1 =
      (\<lambda>req s. (Some [0x59, 0x02, 0xFF, 0xE0, 0x94, 0x04, ?st s], s))"
    using s q by auto
  have "fst (verify_checksum bus1 (of_nat 0x37 # ?m)) = Inr True"
    using verify_checksum_oracle [OF s1 q1, of "of_nat 0x37 # ?m"] by simp
  then obtain bus2 where "verify_checksum bus1 (of_nat 0x37 # ?m) = (Inr True, bus2)"
    by (cases "verify_checksum bus1 (of_nat 0x37 # ?m)") simp
  with r show ?thesis by blast
qed

lemma find_checksum_scenario:
  "\<exists>bus2. find_checksum scenario_bus [0x01, 0x02, 0x03, 0x04] = (Inr 0x37, bus2)"
proof -
  let ?m = "[0x01, 0x02, 0x03, 0x04] :: byte list"
  from scenario_probes obtain bus1 bus2 where
    r: "rejected_all scenario_bus ?m [0..<0x37] = Some bus1"
    and v: "verify_checksum bus1 (of_nat 0x37 # ?m) = (Inr True, bus2)" by blast
  have split: "[0..<0x100] = [0..<0x37] @ 0x37 # [Suc 0x37..<0x100]"
    by (rule upt_split) simp
  from v have "find_checksum scenario_bus ?m = (Inr 0x37, bus2)"
    unfolding find_checksum_4 [of ?m, simplified] split
    by (simp add: find_checksum_from_rejected [OF r])
  then show ?thesis by blast
qed

lemma never_valid_probes:
  "\<exists>bus1. rejected_all (oracle_bus (\<lambda>p. 0x2F)) [0x01, 0x02, 0x03, 0x04] [0..<0x100] = Some bus1"
proof -
  let ?bus = "oracle_bus (\<lambda>p. 0x2F)"
  have s: "bus_send ?bus = (\<lambda>m s. (None, data m))"
    and q: "isotp_request ?bus =
      (\<lambda>req s. (Some [0x59, 0x02, 0xFF, 0xE0, 0x94, 0x04, (\<lambda>p. 0x2F) s], s))"
    by (simp_all add: oracle_bus_def)
  have "\<forall>c\<in>set [0..<0x100]. (\<lambda>p. 0x2F :: byte) (of_nat c # [0x01, 0x02, 0x03, 0x04]) \<noteq> 0x2E"
    by simp
  from rejected_all_oracle [OF s q this] show ?thesis by blast
qed

text \<open>
  Claim C1. For a body of four bytes \<^verbatim>\<open>find_checksum\<close> probes the candidates 0, 1, 2, ... in
  this order, each one put in front of the body and sent as a burst of 16 frames. When
  \<^verbatim>\<open>verify_checksum\<close> has said \<^verbatim>\<open>False\<close> for every candidate below \<open>c\<close> and says \<^verbatim>\<open>True\<close> for
  \<open>c\<close>, the result is \<open>c\<close>, and the frames sent are those of the candidates 0 to \<open>c\<close>. When it
  has said \<^verbatim>\<open>False\<close> for all 256 candidates, the result is the error
  \<open>No_valid_checksum_found\<close>, and the frames sent are those of all 256, in ascending order.
  Conversely a returned candidate is below 256, was accepted, and every one below it was
  rejected.
\<close>

theorem find_checksum_first_valid:
  assumes "length message = 4"
  shows
  "(\<forall>c bus1 bus2. c < 0x100 \<and> rejected_all bus message [0..<c] = Some bus1
        \<and> verify_checksum bus1 (of_nat c # message) = (Inr True, bus2) \<longrightarrow>
      find_checksum bus message = (Inr c, bus2)
      \<and> sent_frames (bus_log bus2) =
          sent_frames (bus_log bus)
            @ concat (map (\<lambda>d. replicate 16 (frame_3fd (of_nat d # message))) [0..<Suc c]))
   \<and> (\<forall>bus1. rejected_all bus message [0..<0x100] = Some bus1 \<longrightarrow>
      find_checksum bus message = (Inl (RuntimeError No_valid_checksum_found), bus1)
      \<and> sent_frames (bus_log bus1) =
          sent_frames (bus_log bus)
            @ concat (map (\<lambda>d. replicate 16 (frame_3fd (of_nat d # message))) [0..<0x100]))
   \<and> (\<forall>c bus2. find_checksum bus message = (Inr c, bus2) \<longrightarrow>
      c < 0x100 \<and> (\<exists>bus1. rejected_all bus message [0..<c] = Some bus1
        \<and> verify_checksum bus1 (of_nat c # message) = (Inr True, bus2)))"
proof (intro conjI allI impI)
  fix c bus1 bus2
  assume a: "c < 0x100 \<and> rejected_all bus message [0..<c] = Some bus1
        \<and> verify_checksum bus1 (of_nat c # message) = (Inr True, bus2)"
  then have split: "[0..<0x100] = [0..<c] @ c # [Suc c..<0x100]" by (simp add: upt_split)
  from a show "find_checksum bus message = (Inr c, bus2)"
    unfolding find_checksum_4 [OF assms] split
    by (simp add: find_checksum_from_rejected)
  from a rejected_all_frames [of bus message "[0..<c]" bus1]
    verify_checksum_returns_frames [of bus1 "of_nat c # message" True bus2]
  show "sent_frames (bus_log bus2) =
      sent_frames (bus_log bus)
        @ concat (map (\<lambda>d. replicate 16 (frame_3fd (of_nat d # message))) [0..<Suc c])"
    by simp
next
  fix bus1
  assume a: "rejected_all bus message [0..<0x100] = Some bus1"
  from find_checksum_from_rejected [OF a, of "[]"]
  show "find_checksum bus message = (Inl (RuntimeError No_valid_checksum_found), bus1)"
    unfolding find_checksum_4 [OF assms] by simp
  from rejected_all_frames [OF a]
  show "sent_frames (bus_log bus1) =
      sent_frames (bus_log bus)
        @ concat (map (\<lambda>d. replicate 16 (frame_3fd (of_nat d # message))) [0..<0x100])" .
next
  fix c bus2
  assume "find_checksum bus message = (Inr c, bus2)"
  then have "find_checksum_from bus message [0..<0x100] = (Inr c, bus2)"
    unfolding find_checksum_4 [OF assms] .
  from find_checksum_from_found [OF this] obtain pre post bus1 where
    s: "[0..<0x100] = pre @ c # post" and r: "rejected_all bus message pre = Some bus1"
    and v: "verify_checksum bus1 (of_nat c # message) = (Inr True, bus2)" by blast
  from upt_eq_split [OF s] have "pre = [0..<c]" "c < 0x100" by simp_all
  with r v show "c < 0x100" and "\<exists>bus1. rejected_all bus message [0..<c] = Some bus1
        \<and> verify_checksum bus1 (of_nat c # message) = (Inr True, bus2)"
    by auto
qed

theorem find_checksum_first_valid_witness:
  "(\<exists>bus2. find_checksum scenario_bus [0x01, 0x02, 0x03, 0x04] = (Inr 0x37, bus2))
   \<and> (\<exists>bus1. find_checksum (oracle_bus (\<lambda>p. 0x2F)) [0x01, 0x02, 0x03, 0x04] =
         (Inl (RuntimeError No_valid_checksum_found), bus1))"
proof -
  let ?m = "[0x01, 0x02, 0x03, 0x04] :: byte list"
  have len: "length ?m = 4" by simp
  have lt: "(0x37::nat) < 0x100" by simp
  from scenario_probes obtain bus1 bus2 where
    r: "rejected_all scenario_bus ?m [0..<0x37] = Some bus1"
    and v: "verify_checksum bus1 (of_nat 0x37 # ?m) = (Inr True, bus2)" by blast
  have "find_checksum scenario_bus ?m = (Inr 0x37, bus2)"
    by (rule find_checksum_first_valid [OF len, THEN conjunct1, rule_format,
          OF conjI [OF lt conjI [OF r v]], THEN conjunct1])
  then have first: "\<exists>bus2. find_checksum scenario_bus ?m = (Inr 0x37, bus2)" ..
  from never_valid_probes obtain bus3 where
    n: "rejected_all (oracle_bus (\<lambda>p. 0x2F)) ?m [0..<0x100] = Some bus3" by blast
  have "find_checksum (oracle_bus (\<lambda>p. 0x2F)) ?m =
      (Inl (RuntimeError No_valid_checksum_found), bus3)"
    by (rule find_checksum_first_valid [OF len, THEN conjunct2, THEN conjunct1, rule_format,
          OF n, THEN conjunct1])
  then have "\<exists>bus1. find_checksum (oracle_bus (\<lambda>p. 0x2F)) ?m =
      (Inl (RuntimeError No_valid_checksum_found), bus1)" ..
  with first show ?thesis by (rule conjI)
qed

text \<open>
  Claim C3. \<^verbatim>\<open>verify_checksum\<close> returns \<^verbatim>\<open>True\<close> exactly when the burst went through, the
  table could be read, and the table gives DTC \<^verbatim>\<open>e09404\<close> the status \<open>0x2E\<close>. A table
  that gives it \<open>0x2F\<close> makes the result \<^verbatim>\<open>False\<close>. On the bus of the end-to-end scenario,
  which reports \<open>0x2E\<close> after the payload \<^verbatim>\<open>[0x37, 0x01, 0x02, 0x03, 0x04]\<close> and \<open>0x2F\<close>
  after any other, \<^verbatim>\<open>find_checksum\<close> on the body \<^verbatim>\<open>[0x01, 0x02, 0x03, 0x04]\<close> returns \<open>0x37\<close>.
\<close>

theorem verify_checksum_valid_status:
  "(fst (verify_checksum bus payload) = Inr True \<longleftrightarrow>
      (\<exists>bus1 dtcs bus2. burst 16 (frame_3fd payload) bus = (Inr (), bus1)
         \<and> get_dtcs (do_sleep 100 bus1) 0x0C = (Inr (Some dtcs), bus2)
         \<and> map_of dtcs ''e09404'' = Some 0x2E))
   \<and> (\<forall>bus1 dtcs bus2. burst 16 (frame_3fd payload) bus = (Inr (), bus1)
         \<and> get_dtcs (do_sleep 100 bus1) 0x0C = (Inr (Some dtcs), bus2)
         \<and> map_of dtcs ''e09404'' = Some 0x2F \<longrightarrow>
       verify_checksum bus payload = (Inr False, bus2))
   \<and> (\<exists>bus2. find_checksum scenario_bus [0x01, 0x02, 0x03, 0x04] = (Inr 0x37, bus2))"
proof (intro conjI allI impI iffI)
  assume "fst (verify_checksum bus payload) = Inr True"
  then obtain bus2 where "verify_checksum bus payload = (Inr True, bus2)"
    by (cases "verify_checksum bus payload") simp
  from verify_checksum_returns [OF this] obtain bus1 dtcs where
    "burst 16 (frame_3fd payload) bus = (Inr (), bus1)"
    "get_dtcs (do_sleep 100 bus1) 0x0C = (Inr (Some dtcs), bus2)"
    "dict_get dtcs ''e09404'' (Str ''missing'') = Status 0x2e" by blast
  moreover from this(3) have "map_of dtcs ''e09404'' = Some 0x2E"
    by (simp add: dict_get_def split: option.splits)
  ultimately show "\<exists>bus1 dtcs bus2. burst 16 (frame_3fd payload) bus = (Inr (), bus1)
         \<and> get_dtcs (do_sleep 100 bus1) 0x0C = (Inr (Some dtcs), bus2)
         \<and> map_of dtcs ''e09404'' = Some 0x2E" by blast
next
  assume "\<exists>bus1 dtcs bus2. burst 16 (frame_3fd payload) bus = (Inr (), bus1)
         \<and> get_dtcs (do_sleep 100 bus1) 0x0C = (Inr (Some dtcs), bus2)
         \<and> map_of dtcs ''e09404'' = Some 0x2E"
  then obtain bus1 dtcs bus2 where b: "burst 16 (frame_3fd payload) bus = (Inr (), bus1)"
    and g: "get_dtcs (do_sleep 100 bus1) 0x0C = (Inr (Some dtcs), bus2)"
    and m: "map_of dtcs ''e09404'' = Some 0x2E" by blast
  show "fst (verify_checksum bus payload) = Inr True"
    unfolding verify_checksum_after_burst(2) [OF b] g by (simp add: dict_get_def m)
next
  fix bus1 dtcs bus2
  assume a: "burst 16 (frame_3fd payload) bus = (Inr (), bus1)
         \<and> get_dtcs (do_sleep 100 bus1) 0x0C = (Inr (Some dtcs), bus2)
         \<and> map_of dtcs ''e09404'' = Some 0x2F"
  then have b: "burst 16 (frame_3fd payload) bus = (Inr (), bus1)" by simp
  from a have "fst (verify_checksum bus payload) = Inr False"
    unfolding verify_checksum_after_burst(2) [OF b] by (simp add: dict_get_def)
  moreover from a have "snd (verify_checksum bus payload) = bus2"
    unfolding verify_checksum_after_burst(1) [OF b] by simp
  ultimately show "verify_checksum bus payload = (Inr False, bus2)"
    by (cases "verify_checksum bus payload") simp
next
  show "\<exists>bus2. find_checksum scenario_bus [0x01, 0x02, 0x03, 0x04] = (Inr 0x37, bus2)"
    by (rule find_checksum_scenario)
qed

theorem verify_checksum_valid_status_witness:
  "fst (verify_checksum scenario_bus [0x00, 0x01, 0x02, 0x03, 0x04]) = Inr False
   \<and> fst (verify_checksum scenario_bus [0x37, 0x01, 0x02, 0x03, 0x04]) = Inr True"
proof -
  let ?st = "\<lambda>p. if p = [0x37, 0x01, 0x02, 0x03, 0x04] then 0x2E else (0x2F :: byte)"
  have s: "bus_send scenario_bus = (\<lambda>m s. (None, data m))"
    by (simp add: scenario_bus_def oracle_bus_def)
  have probe: "\<exists>bus1 bus2. burst 16 (frame_3fd p) scenario_bus = (Inr (), bus1)
      \<and> get_dtcs (do_sleep 100 bus1) 0x0C = (Inr (Some [(''e09404'', ?st p)]), bus2)" for p
  proof -
    let ?bus1 = "scenario_bus\<lparr>bus_state := p,
      bus_log := bus_log scenario_bus @ burst_trace 16 (frame_3fd p)\<rparr>"
    have b: "burst 16 (frame_3fd p) scenario_bus = (Inr (), ?bus1)"
      using burst_oracle [OF s, of 15 p] by simp
    have "isotp_request (do_sleep 100 ?bus1) [0x19, 0x02, 0x0C] (bus_state (do_sleep 100 ?bus1)) =
        (Some [0x59, 0x02, 0xFF, 0xE0, 0x94, 0x04, ?st p], p)"
      by (simp add: do_sleep_def scenario_bus_def oracle_bus_def)
    from get_dtcs_answered [OF this] b show ?thesis
      by (simp add: decoded_response_def decode_single_record)
  qed
  from probe [of "[0x00, 0x01, 0x02, 0x03, 0x04]"] obtain bus1 bus2 where
    b: "burst 16 (frame_3fd [0x00, 0x01, 0x02, 0x03, 0x04]) scenario_bus = (Inr (), bus1)"
    and g: "get_dtcs (do_sleep 100 bus1) 0x0C = (Inr (Some [(''e09404'', 0x2F)]), bus2)"
    by auto
  have m: "map_of [(''e09404'', 0x2F :: byte)] ''e09404'' = Some 0x2F" by simp
  have "verify_checksum scenario_bus [0x00, 0x01, 0x02, 0x03, 0x04] = (Inr False, bus2)"
    by (rule verify_checksum_valid_status [THEN conjunct2, THEN conjunct1, rule_format,
          OF conjI [OF b conjI [OF g m]]])
  then have no: "fst (verify_checksum scenario_bus [0x00, 0x01, 0x02, 0x03, 0x04]) = Inr False"
    by simp
  from probe [of "[0x37, 0x01, 0x02, 0x03, 0x04]"] obtain bus3 bus4 where
    b': "burst 16 (frame_3fd [0x37, 0x01, 0x02, 0x03, 0x04]) scenario_bus = (Inr (), bus3)"
    and g': "get_dtcs (do_sleep 100 bus3) 0x0C = (Inr (Some [(''e09404'', 0x2E)]), bus4)"
    by auto
  have m': "map_of [(''e09404'', 0x2E :: byte)] ''e09404'' = Some 0x2E" by simp
  from b' g' m' have ex: "\<exists>bus1 dtcs bus2.
      burst 16 (frame_3fd [0x37, 0x01, 0x02, 0x03, 0x04]) scenario_bus = (Inr (), bus1)
      \<and> get_dtcs (do_sleep 100 bus1) 0x0C = (Inr (Some dtcs), bus2)
      \<and> map_of dtcs ''e09404'' = Some 0x2E" by blast
  have "fst (verify_checksum scenario_bus [0x37, 0x01, 0x02, 0x03, 0x04]) = Inr True"
    by (rule verify_checksum_valid_status [THEN conjunct1, THEN iffD2, OF ex])
  with no show ?thesis by (rule conjI)
qed

section \<open>Properties of the counter search\<close>

lemma cycle_trace_Cons:
  "cycle_trace byte shift (c # cs) =
     [Send (frame_3fd (counter_payload byte shift c)), Sleep 10] @ cycle_trace byte shift cs"
  by (simp add: cycle_trace_def)

lemma cycle_trace_Nil: "cycle_trace byte shift [] = []"
  by (simp add: cycle_trace_def)

lemma cycle_ok:
  "\<forall>m s. fst (bus_send bus m s) = None \<Longrightarrow>
   \<exists>s'. cycle_counters byte shift cs bus =
     (Inr (), bus\<lparr>bus_state := s', bus_log := bus_log bus @ cycle_trace byte shift cs\<rparr>)"
proof (induction cs arbitrary: bus)
  case Nil
  show ?case by (intro exI [of _ "bus_state bus"]) (simp add: cycle_trace_Nil)
next
  case (Cons c cs)
  let ?m = "frame_3fd (counter_payload byte shift c)"
  obtain s1 where s1: "bus_send bus ?m (bus_state bus) = (None, s1)"
    using Cons.prems by (metis fst_conv surj_pair)
  let ?bus' = "bus\<lparr>bus_state := s1, bus_log := bus_log bus @ [Send ?m, Sleep 10]\<rparr>"
  have step: "cycle_counters byte shift (c # cs) bus = cycle_counters byte shift cs ?bus'"
    using s1 by (simp add: do_send_def do_sleep_def frame_3fd_def Let_def)
  from Cons.prems have "\<forall>m s. fst (bus_send ?bus' m s) = None" by simp
  from Cons.IH [OF this] obtain s' where
    "cycle_counters byte shift cs ?bus' =
      (Inr (), ?bus'\<lparr>bus_state := s', bus_log := bus_log ?bus' @ cycle_trace byte shift cs\<rparr>)"
    by blast
  with step show ?case by (intro exI [of _ s']) (simp add: cycle_trace_Cons)
qed

lemma probe_counter_field_cycled:
  assumes "\<forall>m s. fst (bus_send bus m s) = None"
  shows "\<exists>s'. probe_counter_field byte msk shift bus =
        (case get_dtcs (bus\<lparr>bus_state := s',
                 bus_log := bus_log bus
                   @ cycle_trace byte shift (concat (replicate 4 [0..<msk + 1])) @ [Sleep 100]\<rparr>)
               0x0C of
           (Inl e, bus2) \<Rightarrow> (Inl e, bus2)
         | (Inr None, bus2) \<Rightarrow> (Inl AttributeError, bus2)
         | (Inr (Some dtcs), bus2) \<Rightarrow>
             (case map_of dtcs ''e09402'' of
                Some s \<Rightarrow>
                  if s = 0x2F then (Inr (), bus2)
                  else (Inr (), do_print (status_report s)
                                  (do_print (counter_report byte msk shift) bus2))
              | None \<Rightarrow> (Inl ValueError, do_print (counter_report byte msk shift) bus2)))"
proof -
  from cycle_ok [OF assms, of byte shift "concat (replicate 4 [0..<msk + 1])"] obtain s' where
    c: "cycle_counters byte shift (concat (replicate 4 [0..<msk + 1])) bus =
      (Inr (), bus\<lparr>bus_state := s', bus_log := bus_log bus
          @ cycle_trace byte shift (concat (replicate 4 [0..<msk + 1]))\<rparr>)"
    by blast
  have "probe_counter_field byte msk shift bus =
        (case get_dtcs (do_sleep 100 (bus\<lparr>bus_state := s',
                 bus_log := bus_log bus
                   @ cycle_trace byte shift (concat (replicate 4 [0..<msk + 1]))\<rparr>))
               0x0C of
           (Inl e, bus2) \<Rightarrow> (Inl e, bus2)
         | (Inr None, bus2) \<Rightarrow> (Inl AttributeError, bus2)
         | (Inr (Some dtcs), bus2) \<Rightarrow>
             (case map_of dtcs ''e09402'' of
                Some s \<Rightarrow>
                  if s = 0x2F then (Inr (), bus2)
                  else (Inr (), do_print (status_report s)
                                  (do_print (counter_report byte msk shift) bus2))
              | None \<Rightarrow> (Inl ValueError, do_print (counter_report byte msk shift) bus2)))"
    unfolding probe_counter_field_def c
    by (simp add: dict_get_def Let_def counter_report_def status_report_def
        del: upt_Suc split: prod.splits sum.splits option.splits)
  then show ?thesis
    by (intro exI [of _ s']) (simp add: do_sleep_def del: upt_Suc)
qed

lemma run_hypotheses_append:
  "run_hypotheses (xs @ ys) bus =
     (case run_hypotheses xs bus of
        (Inl e, bus') \<Rightarrow> (Inl e, bus')
      | (Inr _, bus') \<Rightarrow> run_hypotheses ys bus')"
  by (induction xs arbitrary: bus) (auto split: prod.splits sum.splits)

lemma field_loop_run:
  "field_loop byte fs bus = run_hypotheses (map (Pair byte) fs) bus"
  by (induction fs arbitrary: bus) (auto split: prod.splits sum.splits)

lemma byte_loop_run:
  "byte_loop bs bus =
     run_hypotheses (List.product bs [(0xFF, 0), (0x0F, 4), (0x0F, 0)]) bus"
proof (induction bs arbitrary: bus)
  case Nil
  show ?case by simp
next
  case (Cons b bs)
  have "List.product (b # bs) [(0xFF, 0), (0x0F, 4), (0x0F, 0)] =
      map (Pair b) [(0xFF, 0), (0x0F, 4), (0x0F, 0 :: nat)] @
      List.product bs [(0xFF :: nat, 0), (0x0F, 4), (0x0F, 0)]"
    by simp
  then show ?case
    unfolding byte_loop.simps
    by (simp only: run_hypotheses_append field_loop_run Cons.IH)
qed

lemma counter_payload_shape:
  "hd (counter_payload byte shift counter) =
     of_nat (bmw_3fd_crc (tl (counter_payload byte shift counter)))
   \<and> tl (counter_payload byte shift counter) =
     [0xFF, 0xFF, 0xFF, 0xFF][byte := of_nat (counter * 2 ^ shift)]"
  by (simp add: counter_payload_def Let_def push_bit_eq_mult)


section \<open>When the table cannot be read\<close>

lemma probe_counter_field_absent:
  assumes "cycle_counters byte shift (concat (replicate 4 [0..<msk + 1])) bus = (Inr (), bus1)"
    and "get_dtcs (do_sleep 100 bus1) 0x0C = (Inr None, bus2)"
  shows "probe_counter_field byte msk shift bus = (Inl AttributeError, bus2)"
  unfolding probe_counter_field_def assms(1) by (simp add: assms(2))

lemma upt_4: "[0..<4] = [0, 1, 2, 3]"
  by (simp add: upt_rec)

lemma find_counter_fields_first:
  assumes "probe_counter_field 0 0xFF 0 bus = (Inl e, bus')"
  shows "find_counter_fields bus = (Inl e, bus')"
  unfolding find_counter_fields_def upt_4 using assms by simp

text \<open>
  Claim C9. When \<^verbatim>\<open>get_dtcs\<close> has used up its attempts and returns \<^verbatim>\<open>None\<close>, both
  \<^verbatim>\<open>verify_checksum\<close> and the probe of a counter field call \<^verbatim>\<open>.get\<close> on \<^verbatim>\<open>None\<close> and raise
  \<open>AttributeError\<close>: no verdict is returned and nothing is printed. On a bus whose sends
  succeed and whose requests all time out this happens after the burst and three requests,
  and \<^verbatim>\<open>find_counter_fields\<close> ends at its first hypothesis. The default \<^verbatim>\<open>"missing"\<close> is
  used only when a table was decoded and lacks the key; \<^verbatim>\<open>verify_checksum\<close> then returns
  \<^verbatim>\<open>False\<close>.
\<close>

theorem absent_table_aborts:
  "(\<forall>bus1 bus2. burst 16 (frame_3fd payload) bus = (Inr (), bus1)
        \<and> get_dtcs (do_sleep 100 bus1) 0x0C = (Inr None, bus2) \<longrightarrow>
      verify_checksum bus payload = (Inl AttributeError, bus2))
   \<and> (\<forall>bus1 bus2. cycle_counters byte shift (concat (replicate 4 [0..<msk + 1])) bus = (Inr (), bus1)
        \<and> get_dtcs (do_sleep 100 bus1) 0x0C = (Inr None, bus2) \<longrightarrow>
      probe_counter_field byte msk shift bus = (Inl AttributeError, bus2))
   \<and> ((\<forall>m s. fst (bus_send bus m s) = None) \<and> (\<forall>q s. fst (isotp_request bus q s) = None) \<longrightarrow>
        (\<exists>s'. verify_checksum bus payload =
           (Inl AttributeError,
            bus\<lparr>bus_state := s',
                bus_log := bus_log bus @ burst_trace 16 (frame_3fd payload) @ [Sleep 100]
                  @ replicate 3 (Request [0x19, 0x02, 0x0C])\<rparr>))
        \<and> (\<exists>s'. find_counter_fields bus =
           (Inl AttributeError,
            bus\<lparr>bus_state := s',
                bus_log := bus_log bus @ cycle_trace 0 0 (concat (replicate 4 [0..<0xFF + 1]))
                  @ [Sleep 100] @ replicate 3 (Request [0x19, 0x02, 0x0C])\<rparr>)))
   \<and> (\<forall>bus1 dtcs bus2. burst 16 (frame_3fd payload) bus = (Inr (), bus1)
        \<and> get_dtcs (do_sleep 100 bus1) 0x0C = (Inr (Some dtcs), bus2)
        \<and> map_of dtcs ''e09404'' = None \<longrightarrow>
      verify_checksum bus payload = (Inr False, bus2))"
proof (intro conjI allI impI)
  fix bus1 bus2
  assume a: "burst 16 (frame_3fd payload) bus = (Inr (), bus1)
        \<and> get_dtcs (do_sleep 100 bus1) 0x0C = (Inr None, bus2)"
  then have b: "burst 16 (frame_3fd payload) bus = (Inr (), bus1)" by simp
  from a have "fst (verify_checksum bus payload) = Inl AttributeError"
    unfolding verify_checksum_after_burst(2) [OF b] by simp
  moreover from a have "snd (verify_checksum bus payload) = bus2"
    unfolding verify_checksum_after_burst(1) [OF b] by simp
  ultimately show "verify_checksum bus payload = (Inl AttributeError, bus2)"
    by (cases "verify_checksum bus payload") simp
next
  fix bus1 bus2
  assume "cycle_counters byte shift (concat (replicate 4 [0..<msk + 1])) bus = (Inr (), bus1)
        \<and> get_dtcs (do_sleep 100 bus1) 0x0C = (Inr None, bus2)"
  then show "probe_counter_field byte msk shift bus = (Inl AttributeError, bus2)"
    using probe_counter_field_absent by blast
next
  assume a: "(\<forall>m s. fst (bus_send bus m s) = None) \<and> (\<forall>q s. fst (isotp_request bus q s) = None)"
  then have ok: "\<forall>m s. fst (bus_send bus m s) = None" by simp
  from burst_ok [OF ok, of 16 "frame_3fd payload"] obtain s1 where
    b: "burst 16 (frame_3fd payload) bus =
      (Inr (), bus\<lparr>bus_state := s1, bus_log := bus_log bus @ burst_trace 16 (frame_3fd payload)\<rparr>)"
    by blast
  let ?bus1 = "do_sleep 100
    (bus\<lparr>bus_state := s1, bus_log := bus_log bus @ burst_trace 16 (frame_3fd payload)\<rparr>)"
  from a have "\<forall>q s. fst (isotp_request ?bus1 q s) = None" by (simp add: do_sleep_def)
  from get_dtcs_tries_timeout [OF this, of 3 "0x0C"] obtain s' where
    g: "get_dtcs ?bus1 0x0C =
      (Inr None, ?bus1\<lparr>bus_state := s',
         bus_log := bus_log ?bus1 @ replicate 3 (Request [0x19, 0x02, 0x0C])\<rparr>)"
    unfolding get_dtcs_def by blast
  have "fst (verify_checksum bus payload) = Inl AttributeError"
    unfolding verify_checksum_after_burst(2) [OF b] g by simp
  moreover have "snd (verify_checksum bus payload) =
      bus\<lparr>bus_state := s',
          bus_log := bus_log bus @ burst_trace 16 (frame_3fd payload) @ [Sleep 100]
            @ replicate 3 (Request [0x19, 0x02, 0x0C])\<rparr>"
    unfolding verify_checksum_after_burst(1) [OF b] g by (simp add: do_sleep_def)
  ultimately have "verify_checksum bus payload =
           (Inl AttributeError,
            bus\<lparr>bus_state := s',
                bus_log := bus_log bus @ burst_trace 16 (frame_3fd payload) @ [Sleep 100]
                  @ replicate 3 (Request [0x19, 0x02, 0x0C])\<rparr>)"
    by (cases "verify_checksum bus payload") simp
  then show "\<exists>s'. verify_checksum bus payload =
           (Inl AttributeError,
            bus\<lparr>bus_state := s',
                bus_log := bus_log bus @ burst_trace 16 (frame_3fd payload) @ [Sleep 100]
                  @ replicate 3 (Request [0x19, 0x02, 0x0C])\<rparr>)" ..
next
  assume a: "(\<forall>m s. fst (bus_send bus m s) = None) \<and> (\<forall>q s. fst (isotp_request bus q s) = None)"
  then have ok: "\<forall>m s. fst (bus_send bus m s) = None" by simp
  let ?cs = "concat (replicate 4 [0..<0xFF + 1])"
  from cycle_ok [OF ok, of 0 0 ?cs] obtain s1 where
    c: "cycle_counters 0 0 ?cs bus =
      (Inr (), bus\<lparr>bus_state := s1, bus_log := bus_log bus @ cycle_trace 0 0 ?cs\<rparr>)"
    by blast
  let ?bus1 = "do_sleep 100 (bus\<lparr>bus_state := s1, bus_log := bus_log bus @ cycle_trace 0 0 ?cs\<rparr>)"
  from a have "\<forall>q s. fst (isotp_request ?bus1 q s) = None" by (simp add: do_sleep_def)
  from get_dtcs_tries_timeout [OF this, of 3 "0x0C"] obtain s' where
    g: "get_dtcs ?bus1 0x0C =
      (Inr None, ?bus1\<lparr>bus_state := s',
         bus_log := bus_log ?bus1 @ replicate 3 (Request [0x19, 0x02, 0x0C])\<rparr>)"
    unfolding get_dtcs_def by blast
  have "?bus1\<lparr>bus_state := s',
         bus_log := bus_log ?bus1 @ replicate 3 (Request [0x19, 0x02, 0x0C])\<rparr> =
       bus\<lparr>bus_state := s',
           bus_log := bus_log bus @ cycle_trace 0 0 ?cs
             @ [Sleep 100] @ replicate 3 (Request [0x19, 0x02, 0x0C])\<rparr>"
    unfolding do_sleep_def by (simp del: upt_rec_numeral upt_Suc)
  with probe_counter_field_absent [OF c g]
  have "probe_counter_field 0 0xFF 0 bus =
      (Inl AttributeError,
       bus\<lparr>bus_state := s',
           bus_log := bus_log bus @ cycle_trace 0 0 ?cs
             @ [Sleep 100] @ replicate 3 (Request [0x19, 0x02, 0x0C])\<rparr>)"
    by (simp only:)
  from find_counter_fields_first [OF this]
  show "\<exists>s'. find_counter_fields bus =
           (Inl AttributeError,
            bus\<lparr>bus_state := s',
                bus_log := bus_log bus @ cycle_trace 0 0 ?cs
                  @ [Sleep 100] @ replicate 3 (Request [0x19, 0x02, 0x0C])\<rparr>)" ..
next
  fix bus1 dtcs bus2
  assume a: "burst 16 (frame_3fd payload) bus = (Inr (), bus1)
        \<and> get_dtcs (do_sleep 100 bus1) 0x0C = (Inr (Some dtcs), bus2)
        \<and> map_of dtcs ''e09404'' = None"
  then have b: "burst 16 (frame_3fd payload) bus = (Inr (), bus1)" by simp
  from a have "fst (verify_checksum bus payload) = Inr False"
    unfolding verify_checksum_after_burst(2) [OF b] by (simp add: dict_get_def)
  moreover from a have "snd (verify_checksum bus payload) = bus2"
    unfolding verify_checksum_after_burst(1) [OF b] by simp
  ultimately show "verify_checksum bus payload = (Inr False, bus2)"
    by (cases "verify_checksum bus payload") simp
qed


theorem absent_table_aborts_witness:
  "verify_checksum silent_bus [0x37, 0x01, 0x02, 0x03, 0x04] =
     (Inl AttributeError,
      silent_bus\<lparr>bus_log := burst_trace 16 (frame_3fd [0x37, 0x01, 0x02, 0x03, 0x04])
        @ [Sleep 100] @ replicate 3 (Request [0x19, 0x02, 0x0C])\<rparr>)
   \<and> fst (find_counter_fields silent_bus) = Inl AttributeError"
proof -
  let ?p = "[0x37, 0x01, 0x02, 0x03, 0x04] :: byte list"
  have ok: "(\<forall>m s. fst (bus_send silent_bus m s) = None)
      \<and> (\<forall>q s. fst (isotp_request silent_bus q s) = None)"
    by (simp add: silent_bus_def)
  note both = absent_table_aborts [where bus = silent_bus and payload = ?p,
      THEN conjunct2, THEN conjunct2, THEN conjunct1, THEN mp, OF ok]
  from both [THEN conjunct1] obtain s' where
    "verify_checksum silent_bus ?p =
       (Inl AttributeError,
        silent_bus\<lparr>bus_state := s',
            bus_log := bus_log silent_bus @ burst_trace 16 (frame_3fd ?p) @ [Sleep 100]
              @ replicate 3 (Request [0x19, 0x02, 0x0C])\<rparr>)"
    by blast
  moreover have "bus_log silent_bus = []" by (simp add: silent_bus_def)
  ultimately have v: "verify_checksum silent_bus ?p =
     (Inl AttributeError,
      silent_bus\<lparr>bus_log := burst_trace 16 (frame_3fd ?p)
        @ [Sleep 100] @ replicate 3 (Request [0x19, 0x02, 0x0C])\<rparr>)"
    by simp
  from both [THEN conjunct2] obtain s'' bus' where
    "find_counter_fields silent_bus = (Inl AttributeError, bus')"
    by blast
  then have "fst (find_counter_fields silent_bus) = Inl AttributeError"
    by (simp only: fst_conv)
  with v show ?thesis by (rule conjI)
qed

section \<open>A table without the counter DTC\<close>

lemma decode_empty_table: "decode_dtcdata (Some [0x59, 0x02, 0xFF]) = Inr []"
  by (simp add: decode_dtcdata_def)

lemma counter_report_first: "counter_report 0 0xFF 0 = ''Counter byte 0 mask 0xff''"
  by (simp add: counter_report_def dec_digits.simps format_hash_x_def hex_digits.simps
      hex_digit_def)

text \<open>
  Claim C2 says that \<^verbatim>\<open>find_counter_fields\<close> probes all twelve hypotheses and reports each
  one exactly when the status of DTC \<^verbatim>\<open>e09402\<close> differs from \<open>0x2F\<close>. The code does not on
  an ECU that answers with a table without \<^verbatim>\<open>e09402\<close>, here the empty table: for the
  first hypothesis (byte 0, full byte) it sends the 1024 frames, waits, reads the table
  once, takes the default \<^verbatim>\<open>"missing"\<close> and prints the first line of the report; the second
  \<^verbatim>\<open>print\<close> formats \<^verbatim>\<open>"missing"\<close> with \<^verbatim>\<open>#x\<close> and raises \<open>ValueError\<close>, which ends the search
  with eleven hypotheses never probed.
\<close>

theorem find_counter_fields_missing_dtc:
  "find_counter_fields (answering_bus [0x59, 0x02, 0xFF]) =
     (Inl ValueError,
      (answering_bus [0x59, 0x02, 0xFF])\<lparr>bus_log :=
         cycle_trace 0 0 (concat (replicate 4 [0..<0xFF + 1]))
           @ [Sleep 100, Request [0x19, 0x02, 0x0C], Print ''Counter byte 0 mask 0xff'']\<rparr>)"
proof -
  let ?bus = "answering_bus [0x59, 0x02, 0xFF]"
  let ?tr = "cycle_trace 0 0 (concat (replicate 4 [0..<0xFF + 1]))"
  have ok: "\<forall>m s. fst (bus_send ?bus m s) = None" by (simp add: answering_bus_def)
  from probe_counter_field_cycled [OF ok, of 0 "0xFF" 0]
  obtain s' where p: "probe_counter_field 0 0xFF 0 ?bus =
        (case get_dtcs (?bus\<lparr>bus_state := s', bus_log := bus_log ?bus @ ?tr @ [Sleep 100]\<rparr>)
               0x0C of
           (Inl e, bus2) \<Rightarrow> (Inl e, bus2)
         | (Inr None, bus2) \<Rightarrow> (Inl AttributeError, bus2)
         | (Inr (Some dtcs), bus2) \<Rightarrow>
             (case map_of dtcs ''e09402'' of
                Some s \<Rightarrow>
                  if s = 0x2F then (Inr (), bus2)
                  else (Inr (), do_print (status_report s)
                                  (do_print (counter_report 0 0xFF 0) bus2))
              | None \<Rightarrow> (Inl ValueError, do_print (counter_report 0 0xFF 0) bus2)))"
    by blast
  let ?bus1 = "?bus\<lparr>bus_state := s', bus_log := bus_log ?bus @ ?tr @ [Sleep 100]\<rparr>"
  have "isotp_request ?bus1 [0x19, 0x02, 0x0C] (bus_state ?bus1) = (Some [0x59, 0x02, 0xFF], ())"
    by (simp add: answering_bus_def)
  from get_dtcs_answered [OF this]
  have g: "get_dtcs ?bus1 0x0C =
      (Inr (Some []),
       ?bus1\<lparr>bus_state := (), bus_log := bus_log ?bus1 @ [Request [0x19, 0x02, 0x0C]]\<rparr>)"
    by (simp add: decoded_response_def decode_empty_table)
  have "probe_counter_field 0 0xFF 0 ?bus =
     (Inl ValueError,
      ?bus\<lparr>bus_log := ?tr
        @ [Sleep 100, Request [0x19, 0x02, 0x0C], Print ''Counter byte 0 mask 0xff'']\<rparr>)"
    unfolding p g
    by (simp add: do_print_def answering_bus_def counter_report_first
        del: upt_rec_numeral upt_Suc)
  then show ?thesis by (rule find_counter_fields_first)
qed

section \<open>Integers that become bytes\<close>

text \<open>
  The model turns three Python integers into bytes with \<open>of_nat\<close>: the candidate of
  \<^verbatim>\<open>find_checksum\<close>, the shifted counter and the checksum of \<^verbatim>\<open>find_counter_fields\<close>. All
  three are below 256 wherever the program computes them, so nothing wraps, and
  \<^verbatim>\<open>can.Message\<close> accepts them. The last lemma spells out the twelve hypotheses.
\<close>

lemma and_255: "(x :: nat) AND 0xFF = x mod 256"
proof -
  have m: "mask 8 = (0xFF :: nat)" by (simp add: mask_eq_exp_minus_1)
  have "x AND 0xFF = x AND mask 8" by (simp only: m)
  also have "\<dots> = take_bit 8 x" by (simp only: take_bit_eq_mask)
  also have "\<dots> = x mod 2 ^ 8" by (simp only: take_bit_eq_mod)
  finally show ?thesis by simp
qed

lemma bmw_3fd_crc_fits: "unat (of_nat (bmw_3fd_crc message) :: byte) = bmw_3fd_crc message"
proof -
  have "bmw_3fd_crc message < 256" by (simp add: bmw_3fd_crc_def and_255)
  then show ?thesis by (simp add: unat_of_nat)
qed

lemma counter_value_fits:
  assumes "(msk, shift) \<in> set [(0xFF, 0), (0x0F, 4), (0x0F, 0)]" "counter \<le> msk"
  shows "unat (of_nat (push_bit shift counter) :: byte) = counter * 2 ^ shift"
proof -
  from assms have "counter * 2 ^ shift < 256" by auto
  then show ?thesis
    using unat_of_nat [where 'a = 8, of "counter * 2 ^ shift"]
    by (simp add: push_bit_eq_mult del: of_nat_mult of_nat_power)
qed

lemma candidate_fits: "chksum \<in> set [0..<0x100] \<Longrightarrow> unat (of_nat chksum :: byte) = chksum"
  by (simp add: unat_of_nat del: upt_rec_numeral)

lemma hypotheses_list:
  "List.product [0..<4] [(0xFF, 0), (0x0F, 4), (0x0F, 0)] =
     [(0, 0xFF, 0), (0, 0x0F, 4), (0, 0x0F, 0 :: nat),
      (1, 0xFF, 0), (1, 0x0F, 4), (1, 0x0F, 0),
      (2, 0xFF, 0), (2, 0x0F, 4), (2, 0x0F, 0),
      (3 :: nat, 0xFF :: nat, 0), (3, 0x0F, 4), (3, 0x0F, 0)]"
  by (simp add: upt_rec)

end
